theory Spec2Isabelle
  imports Main "HOL-Library.Char_ord" "HOL-Library.List_Lexorder"
begin

section \<open>Values, objects and the record store\<close>

text \<open>
  The controllers work on plain JavaScript objects. A request body that went through
  \<open>express.json()\<close> holds JSON values, and the fields the controllers touch are
  strings, so a field value is one of the JSON primitives (arrays and nested objects,
  which the validation rejects like every other value that is not a string, are left
  out). An object is a finite map from field names to values: a field that is absent
  reads as \<open>undefined\<close>, which is \<open>None\<close> here. The TypeScript type \<open>User\<close>
  (seven string fields) is erased at run time; the tests hand the controllers objects
  cast with \<open>as User\<close>, so the model keeps the objects as they are at run time.
\<close>

datatype jsval = JString string | JNumber int | JBoolean bool | JNull

type_synonym obj = "string \<rightharpoonup> jsval"

type_synonym store = "obj list"

text \<open>\<open>throw new Error('User not found')\<close> is the only failure of the controllers.\<close>

datatype error = NotFound

text \<open>
  \<open>Array.prototype.findIndex\<close>: the index of the first element that satisfies the
  predicate; the source's \<open>-1\<close> is \<open>None\<close>. \<open>Array.prototype.find\<close> is
  \<^const>\<open>List.find\<close>.
\<close>

fun findIndex :: "('a \<Rightarrow> bool) \<Rightarrow> 'a list \<Rightarrow> nat option" where
  "findIndex p [] = None"
| "findIndex p (x # xs) = (if p x then Some 0 else map_option Suc (findIndex p xs))"

text \<open>
  An object literal with the seven fields of \<open>User\<close>, in the order of the type
  declaration.
\<close>

definition user_object ::
  "string \<Rightarrow> string \<Rightarrow> string \<Rightarrow> string \<Rightarrow> string \<Rightarrow> string \<Rightarrow> string \<Rightarrow> obj" where
  "user_object i fn ln em ph ca ua =
     [''id'' \<mapsto> JString i, ''firstName'' \<mapsto> JString fn, ''lastName'' \<mapsto> JString ln,
      ''email'' \<mapsto> JString em, ''phone'' \<mapsto> JString ph,
      ''createdAt'' \<mapsto> JString ca, ''updatedAt'' \<mapsto> JString ua]"

text \<open>
  The module-level array \<open>users\<close> of \<open>users-model.ts\<close>, as it is when the process
  starts. The controllers mutate it; in the model every controller takes the array and
  returns the new one.
\<close>

definition users_initial :: store where
  "users_initial =
    [user_object ''4b1335f4-788b-4e8d-9ed5-04b99ce430a4'' ''Emma'' ''Johnson''
       ''emma.johnson@email.com'' ''+1-555-555-0123''
       ''2023-01-15T08:30:00Z'' ''2023-08-22T14:15:30Z'',
     user_object ''c27d2af0-b713-4092-a73b-024d1313233f'' ''Liam'' ''Williams''
       ''liam.williams@email.com'' ''+1-555-555-0456''
       ''2023-02-03T12:45:15Z'' ''2023-09-10T09:22:45Z'',
     user_object ''02ad7f8d-9a4d-4f00-b101-7744851880a2'' ''Sophia'' ''Brown''
       ''sophia.brown@email.com'' ''+1-555-555-0789''
       ''2023-03-22T16:20:30Z'' ''2023-07-18T11:33:20Z'',
     user_object ''a3fdef38-b254-4139-b93c-7e576baf9536'' ''Noah'' ''Davis''
       ''noah.davis@email.com'' ''+1-555-555-0321''
       ''2023-04-07T10:15:45Z'' ''2023-09-25T15:40:10Z'',
     user_object ''872afdbd-639e-495f-94f0-c008799f7914'' ''Olivia'' ''Miller''
       ''olivia.miller@email.com'' ''+1-555-555-0654''
       ''2023-05-12T13:25:20Z'' ''2023-08-30T16:55:35Z'',
     user_object ''3415a2d7-8f54-4e17-8966-55d1b0219ee4'' ''Ethan'' ''Wilson''
       ''ethan.wilson@email.com'' ''+1-555-555-0987''
       ''2023-01-28T09:40:10Z'' ''2023-06-14T12:28:50Z'',
     user_object ''a81f014a-efea-40d1-9a53-ff7f329b653c'' ''Ava'' ''Moore''
       ''ava.moore@email.com'' ''+1-555-555-0147''
       ''2023-06-05T14:55:25Z'' ''2023-09-12T10:18:40Z'',
     user_object ''3d4c5f82-909d-474c-95ee-0ab44fec640e'' ''Mason'' ''Taylor''
       ''mason.taylor@email.com'' ''+1-555-555-0258''
       ''2023-07-19T11:30:50Z'' ''2023-09-28T13:42:15Z'',
     user_object ''8b5fac60-b246-4601-81e7-a517ceea1c6d'' ''Isabella'' ''Anderson''
       ''isabella.anderson@email.com'' ''+1-555-555-0369''
       ''2023-08-01T07:15:35Z'' ''2023-09-05T08:50:25Z'',
     user_object ''798ada0b-a752-449c-9138-551a4850fb03'' ''William'' ''Thomas''
       ''william.thomas@email.com'' ''+1-555-555-0741''
       ''2023-09-14T15:20:10Z'' ''2023-09-20T17:35:55Z'']"

section \<open>The controllers\<close>

text \<open>
  \<open>createNewUser\<close>: the object spread copies every own field of \<open>user\<close>, then the three
  generated fields are written over it. \<open>randomUUID()\<close> and the two evaluations of
  \<open>new Date().toISOString()\<close> read the environment; their results are the arguments
  \<open>uuid\<close>, \<open>now1\<close> and \<open>now2\<close>, in the order the source evaluates them. The function
  returns the new object and the array after \<open>push\<close>.
\<close>

definition createNewUser :: "store \<Rightarrow> obj \<Rightarrow> string \<Rightarrow> string \<Rightarrow> string \<Rightarrow> obj \<times> store" where
  "createNewUser users user uuid now1 now2 =
     (let newUser = user(''id'' \<mapsto> JString uuid,
                         ''createdAt'' \<mapsto> JString now1,
                         ''updatedAt'' \<mapsto> JString now2)
      in (newUser, users @ [newUser]))"

text \<open>
  \<open>getUserById\<close>: \<open>users.find((user) => user.id === id)\<close>. The parameter is typed
  \<open>string\<close>, but the tests also pass \<open>null\<close> and \<open>undefined\<close>, so it is any value
  or \<open>undefined\<close> (\<open>None\<close>). On primitives \<open>===\<close> is equality of the values, and
  \<open>undefined === undefined\<close> holds, which is equality on \<open>jsval option\<close>.
\<close>

definition getUserById :: "store \<Rightarrow> jsval option \<Rightarrow> error + obj" where
  "getUserById users id' =
     (case find (\<lambda>user. user ''id'' = id') users of
        None \<Rightarrow> Inl NotFound
      | Some user \<Rightarrow> Inr user)"

text \<open>
  \<open>updateUser\<close>: the stored object is spread first, the payload second, and
  \<open>updatedAt\<close> is written last; \<open>now\<close> is the result of
  \<open>new Date().toISOString()\<close>. The array is assigned at \<open>userIndex\<close>.
\<close>

definition updateUser :: "store \<Rightarrow> jsval option \<Rightarrow> obj \<Rightarrow> string \<Rightarrow> (error + obj) \<times> store" where
  "updateUser users id' user now =
     (case findIndex (\<lambda>user. user ''id'' = id') users of
        None \<Rightarrow> (Inl NotFound, users)
      | Some userIndex \<Rightarrow>
          (let updatedUser = (users ! userIndex ++ user)(''updatedAt'' \<mapsto> JString now)
           in (Inr updatedUser, users[userIndex := updatedUser])))"

text \<open>\<open>deleteUser\<close>: \<open>users.splice(userIndex, 1)\<close> removes one element at the index.\<close>

definition deleteUser :: "store \<Rightarrow> jsval option \<Rightarrow> (error + obj) \<times> store" where
  "deleteUser users id' =
     (case findIndex (\<lambda>user. user ''id'' = id') users of
        None \<Rightarrow> (Inl NotFound, users)
      | Some userIndex \<Rightarrow>
          (Inr (users ! userIndex), take userIndex users @ drop (Suc userIndex) users))"

text \<open>
  The array the controller tests install before each case (\<open>testUsers\<close> in the
  \<open>updateUser\<close> and \<open>deleteUser\<close> suites).
\<close>

definition testUsers :: store where
  "testUsers =
    [user_object ''1'' ''John'' ''Doe'' ''john.doe@example.com'' ''+1-555-123-4567''
       ''2024-01-01T00:00:00.000Z'' ''2024-01-01T00:00:00.000Z'',
     user_object ''2'' ''Jane'' ''Smith'' ''jane.smith@example.com'' ''+1-555-987-6543''
       ''2024-01-02T00:00:00.000Z'' ''2024-01-02T00:00:00.000Z'',
     user_object ''3'' ''Bob'' ''Wilson'' ''bob.wilson@example.com'' ''+1-555-111-2222''
       ''2024-01-03T00:00:00.000Z'' ''2024-01-03T00:00:00.000Z'']"

section \<open>The pattern of \<open>phoneSchema\<close>\<close>

text \<open>
  The regular expressions of the schemas use character classes, sequencing, \<open>?\<close> and
  bounded repetition \<open>{m,n}\<close> only. \<open>rests r s\<close> lists what is left of \<open>s\<close> after
  each way of matching \<open>r\<close> at its start, longest alternatives first as the
  backtracking engine tries them; with the anchors \<open>^\<close> and \<open>$\<close> the pattern matches
  when some way consumes the whole string. The recursion ends because every call is on a
  smaller expression or on a repetition with a smaller upper bound (\<open>weight\<close>). A
  \<open>string\<close> is the sequence of the code units of the JavaScript string, for texts whose
  code units are below 256.
\<close>

datatype regex =
    Class "char list"
  | Seq regex regex
  | Opt regex
  | Repeat regex nat nat

fun weight :: "regex \<Rightarrow> nat" where
  "weight (Class cs) = 1"
| "weight (Seq a b) = Suc (weight a + weight b)"
| "weight (Opt a) = Suc (weight a)"
| "weight (Repeat a m n) = Suc (weight a + n)"

function rests :: "regex \<Rightarrow> string \<Rightarrow> string list" where
  "rests (Class cs) s = (case s of [] \<Rightarrow> [] | c # t \<Rightarrow> if c \<in> set cs then [t] else [])"
| "rests (Seq a b) s = concat (map (rests b) (rests a s))"
| "rests (Opt a) s = rests a s @ [s]"
| "rests (Repeat a m 0) s = (if m = 0 then [s] else [])"
| "rests (Repeat a m (Suc n)) s =
     concat (map (rests (Repeat a (m - 1) n)) (rests a s)) @ (if m = 0 then [s] else [])"
  by pat_completeness auto
termination
  by (relation "measure (\<lambda>(r, s). weight r)") auto

definition regex_test :: "regex \<Rightarrow> string \<Rightarrow> bool" where
  "regex_test r s = ([] \<in> set (rests r s))"

text \<open>\<open>\d\<close> and \<open>\s\<close> (the white space and line terminators below 256).\<close>

definition digit :: "char list" where
  "digit = ''0123456789''"

definition whitespace :: "char list" where
  "whitespace = [CHR '' '', CHR 0x09, CHR 0x0A, CHR 0x0B, CHR 0x0C, CHR 0x0D, CHR 0xA0]"

text \<open>\<^verbatim>\<open>/^(\+[1-9]\d{0,3}[-\s]?)?[\d-\s]{7,15}$/\<close>\<close>

definition phone_regex :: regex where
  "phone_regex =
     Seq (Opt (Seq (Class ''+'')
              (Seq (Class ''123456789'')
              (Seq (Repeat (Class digit) 0 3)
                   (Opt (Class (''-'' @ whitespace)))))))
         (Repeat (Class (digit @ ''-'' @ whitespace)) 7 15)"

section \<open>The schemas\<close>

text \<open>
  Modelled from the spec: the schemas are built and interpreted by the Joi library, whose
  code is not among the sources. Following the spec, a schema is a declarative structure:
  an ordered list of field descriptors, each with a required flag, its constraints and
  its message overrides, interpreted by one validation routine. Every field of the user
  schemas is a \<open>Joi.string()\<close>. The grammars behind \<open>.email()\<close> and \<open>.uuid()\<close> are
  Joi's own and are left as a parameter \<open>g\<close> of the validation; \<open>.pattern(re)\<close>
  carries its regular expression.
\<close>

datatype format = EmailFormat | GuidFormat

datatype rule = Format format | Pattern regex

type_synonym grammar = "format \<Rightarrow> string \<Rightarrow> bool"

record string_schema =
  presence :: bool
  rules :: "rule list"
  custom :: "(string \<times> string) list"

type_synonym object_schema = "(string \<times> string_schema) list"

definition Joi_string :: string_schema where
  "Joi_string = \<lparr>presence = False, rules = [], custom = []\<rparr>"

definition Joi_email :: "string_schema \<Rightarrow> string_schema" where
  "Joi_email s = s\<lparr>rules := rules s @ [Format EmailFormat]\<rparr>"

definition Joi_uuid :: "string_schema \<Rightarrow> string_schema" where
  "Joi_uuid s = s\<lparr>rules := rules s @ [Format GuidFormat]\<rparr>"

definition Joi_pattern :: "regex \<Rightarrow> string_schema \<Rightarrow> string_schema" where
  "Joi_pattern r s = s\<lparr>rules := rules s @ [Pattern r]\<rparr>"

definition Joi_messages :: "(string \<times> string) list \<Rightarrow> string_schema \<Rightarrow> string_schema" where
  "Joi_messages ms s = s\<lparr>custom := ms @ custom s\<rparr>"

definition Joi_required :: "string_schema \<Rightarrow> string_schema" where
  "Joi_required s = s\<lparr>presence := True\<rparr>"

text \<open>
  Modelled from the spec: \<open>fork\<close> and \<open>append\<close> are Joi's. \<open>schema.fork(keys, f)\<close>
  applies \<open>f\<close> to the descriptors of the listed keys and keeps the declaration order;
  \<open>schema.append(extra)\<close> adds the keys of \<open>extra\<close> at the end, replacing a key
  declared before.
\<close>

definition Joi_fork ::
  "string list \<Rightarrow> (string_schema \<Rightarrow> string_schema) \<Rightarrow> object_schema \<Rightarrow> object_schema" where
  "Joi_fork keys adjuster schema =
     map (\<lambda>(key, s). (key, if key \<in> set keys then adjuster s else s)) schema"

definition Joi_append :: "object_schema \<Rightarrow> object_schema \<Rightarrow> object_schema" where
  "Joi_append extra schema =
     filter (\<lambda>(key, s). key \<notin> set (map fst extra)) schema @ extra"

text \<open>\<open>shared.schema.ts\<close>\<close>

definition emailSchema :: string_schema where
  "emailSchema =
     Joi_messages [(''string.email'', ''Invalid email address'')] (Joi_email Joi_string)"

definition idSchema :: string_schema where
  "idSchema =
     Joi_required (Joi_messages [(''string.uuid'', ''Invalid ID'')] (Joi_uuid Joi_string))"

definition phoneSchema :: string_schema where
  "phoneSchema =
     Joi_messages [(''string.pattern.base'', ''Invalid phone number'')]
       (Joi_pattern phone_regex Joi_string)"

text \<open>
  The user schemas. The sources hold two declarations of them. In the first the base
  schema makes nothing required, the create schema is its \<open>fork\<close> that requires
  \<open>firstName\<close> and \<open>lastName\<close>, and the update schema is the base schema; this is
  the one the route tests exercise (a \<open>PATCH\<close> with the body \<open>{}\<close> is answered 200).
\<close>

definition userBaseSchema :: object_schema where
  "userBaseSchema =
     [(''firstName'', Joi_string), (''lastName'', Joi_string),
      (''email'', emailSchema), (''phone'', phoneSchema)]"

definition userCreateSchema :: object_schema where
  "userCreateSchema = Joi_fork [''firstName'', ''lastName''] Joi_required userBaseSchema"

definition userIdSchema :: object_schema where
  "userIdSchema = [(''id'', idSchema)]"

definition userUpdateSchema :: object_schema where
  "userUpdateSchema = userBaseSchema"

text \<open>
  The second declaration: the base schema itself requires \<open>firstName\<close> and
  \<open>lastName\<close>, the create schema is the base schema, and the update schema appends
  the required \<open>id\<close>. It goes with the router that has no \<open>PATCH\<close> route. The names
  carry the suffix \<open>2\<close>.
\<close>

definition userBaseSchema2 :: object_schema where
  "userBaseSchema2 =
     [(''firstName'', Joi_required Joi_string), (''lastName'', Joi_required Joi_string),
      (''email'', emailSchema), (''phone'', phoneSchema)]"

definition userCreateSchema2 :: object_schema where
  "userCreateSchema2 = userBaseSchema2"

definition userUpdateSchema2 :: object_schema where
  "userUpdateSchema2 = Joi_append [(''id'', idSchema)] userBaseSchema2"

section \<open>Validation\<close>

text \<open>
  One entry of Joi's \<open>error.details\<close>: the path of the value, the error code and the
  message. A message is either the override the schema gives for the code with
  \<open>.messages()\<close>, or Joi's built-in text for the code and the label of the field
  (\<open>errors.wrap.label\<close> is off, so the label is the bare key); the built-in texts are
  Joi's and stay symbolic.
\<close>

datatype msg = Custom string | Default string string

record item =
  item_path :: "string list"
  item_type :: string
  item_message :: msg

definition report :: "string_schema \<Rightarrow> string \<Rightarrow> string \<Rightarrow> item" where
  "report s key code =
     \<lparr>item_path = [key], item_type = code,
      item_message = (case map_of (custom s) code of
                        Some m \<Rightarrow> Custom m
                      | None \<Rightarrow> Default code key)\<rparr>"

fun rule_code :: "rule \<Rightarrow> string" where
  "rule_code (Format EmailFormat) = ''string.email''"
| "rule_code (Format GuidFormat) = ''string.guid''"
| "rule_code (Pattern r) = ''string.pattern.base''"

fun rule_ok :: "grammar \<Rightarrow> rule \<Rightarrow> string \<Rightarrow> bool" where
  "rule_ok g (Format f) v = g f v"
| "rule_ok g (Pattern r) v = regex_test r v"

text \<open>
  Modelled from the spec: the check of one field, which is Joi's. An absent field is a
  violation only when the field is required. A present value must be a string and must not
  be empty; then every constraint is checked and every failing one is reported
  (\<open>abortEarly: false\<close>).
\<close>

definition validate_string ::
  "grammar \<Rightarrow> string \<Rightarrow> string_schema \<Rightarrow> jsval option \<Rightarrow> item list" where
  "validate_string g key s value =
     (case value of
        None \<Rightarrow> if presence s then [report s key ''any.required''] else []
      | Some (JString v) \<Rightarrow>
          if v = [] then [report s key ''string.empty'']
          else map (\<lambda>r. report s key (rule_code r)) (filter (\<lambda>r. \<not> rule_ok g r v) (rules s))
      | Some _ \<Rightarrow> [report s key ''string.base''])"

text \<open>
  Modelled from the spec: \<open>schema.validate(value, {abortEarly: false, stripUnknown:
  true})\<close> on an object, which is Joi's. The declared fields are visited in declaration
  order and the violations of each are added to the ones found so far; the sanitized value
  keeps the declared fields of the input and drops every other one.
\<close>

fun validate_keys :: "grammar \<Rightarrow> object_schema \<Rightarrow> obj \<Rightarrow> item list \<Rightarrow> item list" where
  "validate_keys g [] raw errors = errors"
| "validate_keys g ((key, s) # rest) raw errors =
     validate_keys g rest raw (errors @ validate_string g key s (raw key))"

definition validate :: "grammar \<Rightarrow> object_schema \<Rightarrow> obj \<Rightarrow> item list \<times> obj" where
  "validate g schema raw =
     (validate_keys g schema raw [], raw |` set (map fst schema))"

text \<open>\<open>Array.prototype.join\<close>\<close>

fun join :: "string list \<Rightarrow> string \<Rightarrow> string" where
  "join [] sep = []"
| "join [x] sep = x"
| "join (x # y # zs) sep = x @ sep @ join (y # zs) sep"

text \<open>
  \<open>validateRequest\<close> of the validation middleware, on \<open>req[property]\<close>: without an
  error the sanitized value replaces the property and the next handler runs
  (\<open>Inr\<close>); otherwise the response is 400 with the body
  \<open>{status: 'error', message: 'Validation error', details}\<close>, of which \<open>Inl\<close>
  carries \<open>details\<close>.
\<close>

record error_detail =
  path :: string
  message :: msg

definition validateRequest :: "grammar \<Rightarrow> object_schema \<Rightarrow> obj \<Rightarrow> error_detail list + obj" where
  "validateRequest g schema raw =
     (case validate g schema raw of
        ([], value) \<Rightarrow> Inr value
      | (detail # details, value) \<Rightarrow>
          Inl (map (\<lambda>detail. \<lparr>path = join (item_path detail) ''.'',
                              message = item_message detail\<rparr>)
                 (detail # details)))"

text \<open>
  A grammar to run the validation on concrete inputs: a text with an \<open>@\<close> as an email
  address, a text of 36 characters as a UUID.
\<close>

definition sample_grammar :: grammar where
  "sample_grammar f v =
     (case f of EmailFormat \<Rightarrow> CHR ''@'' \<in> set v | GuidFormat \<Rightarrow> length v = 36)"

section \<open>The reachable stores\<close>

text \<open>
  The states of the array that the process can reach: it starts as \<open>users_initial\<close>,
  and each step is one of the three mutating controllers behind its validation
  middleware. \<open>POST /user\<close> hands \<open>createNewUser\<close> the sanitized body of a request
  that passed \<open>userCreateSchema\<close>, \<open>PATCH /user/:id\<close> hands \<open>updateUser\<close> the
  sanitized body of one that passed \<open>userUpdateSchema\<close>. The first component is the
  latest reading of the clock. Two assumptions on the environment are written into the
  rules: \<open>randomUUID()\<close> returns an identifier that no stored user has, and the clock
  never runs backwards (each reading is at least the previous one, and the first is not
  before the latest time stamp of the initial data). Time stamps are compared as texts:
  ISO-8601 UTC texts of one shape sort as the instants do.
\<close>

inductive reachable :: "grammar \<Rightarrow> string \<Rightarrow> store \<Rightarrow> bool" for g :: grammar where
  start: "''2023-09-28T13:42:15Z'' \<le> clock \<Longrightarrow> reachable g clock users_initial"
| create: "reachable g clock users \<Longrightarrow>
     validateRequest g userCreateSchema body = Inr user \<Longrightarrow>
     \<forall>u\<in>set users. u ''id'' \<noteq> Some (JString uuid) \<Longrightarrow>
     clock \<le> now1 \<Longrightarrow> now1 \<le> now2 \<Longrightarrow>
     reachable g now2 (snd (createNewUser users user uuid now1 now2))"
| update: "reachable g clock users \<Longrightarrow>
     validateRequest g userUpdateSchema body = Inr user \<Longrightarrow>
     clock \<le> now \<Longrightarrow>
     reachable g now (snd (updateUser users id' user now))"
| delete: "reachable g clock users \<Longrightarrow>
     reachable g clock (snd (deleteUser users id'))"

text \<open>A field is populated when it is present and holds a string.\<close>

definition populated :: "obj \<Rightarrow> string \<Rightarrow> bool" where
  "populated u key = (\<exists>s. u key = Some (JString s))"

text \<open>
  The shape of a stored record: the identifier and the two names are populated,
  \<open>email\<close> and \<open>phone\<close> are populated or absent, and there is no field beyond the
  seven of \<open>User\<close>.
\<close>

definition shaped :: "obj \<Rightarrow> bool" where
  "shaped u =
     (populated u ''id'' \<and> populated u ''firstName'' \<and> populated u ''lastName''
      \<and> (u ''email'' = None \<or> populated u ''email'')
      \<and> (u ''phone'' = None \<or> populated u ''phone'')
      \<and> dom u \<subseteq> {''id'', ''firstName'', ''lastName'', ''email'', ''phone'',
                    ''createdAt'', ''updatedAt''})"

text \<open>
  The time stamps of a stored record at a moment when the latest clock reading is
  \<open>clock\<close>: both are populated, the creation time is not after the update time, and the
  update time is not after the clock.
\<close>

definition stamped :: "string \<Rightarrow> obj \<Rightarrow> bool" where
  "stamped clock u =
     (\<exists>createdAt updatedAt.
        u ''createdAt'' = Some (JString createdAt)
        \<and> u ''updatedAt'' = Some (JString updatedAt)
        \<and> createdAt \<le> updatedAt \<and> updatedAt \<le> clock)"

definition well_formed :: "string \<Rightarrow> obj \<Rightarrow> bool" where
  "well_formed clock u = (shaped u \<and> stamped clock u)"

definition store_invariant :: "string \<Rightarrow> store \<Rightarrow> bool" where
  "store_invariant clock users =
     (distinct (map (\<lambda>u. u ''id'') users) \<and> (\<forall>u\<in>set users. well_formed clock u))"

text \<open>
  A body that passes \<open>userCreateSchema\<close> without \<open>email\<close> and \<open>phone\<close>, and the
  identifier the \<open>createNewUser\<close> tests let \<open>randomUUID\<close> return.
\<close>

definition names_only :: obj where
  "names_only = [''firstName'' \<mapsto> JString ''Alice'', ''lastName'' \<mapsto> JString ''Johnson'']"

definition mockUUID :: string where
  "mockUUID = ''123e4567-e89b-12d3-a456-426614174000''"

text \<open>The body of the route test that creates a user with valid data.\<close>

definition alice :: obj where
  "alice = [''firstName'' \<mapsto> JString ''Alice'', ''lastName'' \<mapsto> JString ''Johnson'',
            ''email'' \<mapsto> JString ''alice.johnson@example.com'',
            ''phone'' \<mapsto> JString ''+1-555-111-2222'']"

section \<open>Facts about the linear searches\<close>

lemma findIndex_None_iff: "findIndex p xs = None \<longleftrightarrow> (\<forall>x\<in>set xs. \<not> p x)"
  by (induction xs) auto

lemma findIndex_Some_bound: "findIndex p xs = Some i \<Longrightarrow> i < length xs"
  by (induction xs arbitrary: i) (auto split: if_splits)

lemma findIndex_Some_sat: "findIndex p xs = Some i \<Longrightarrow> p (xs ! i)"
  by (induction xs arbitrary: i) (auto split: if_splits)

lemma findIndex_Some_first: "findIndex p xs = Some i \<Longrightarrow> j < i \<Longrightarrow> \<not> p (xs ! j)"
proof (induction xs arbitrary: i j)
  case Nil
  then show ?case by simp
next
  case (Cons x xs)
  show ?case
  proof (cases "p x")
    case True
    with Cons.prems show ?thesis by simp
  next
    case False
    with Cons.prems obtain k where k: "findIndex p xs = Some k" "i = Suc k"
      by auto
    show ?thesis
    proof (cases j)
      case 0
      with False show ?thesis by simp
    next
      case (Suc j')
      with Cons.prems(2) k have "j' < k" by simp
      with Cons.IH [OF k(1)] Suc show ?thesis by simp
    qed
  qed
qed

lemma findIndex_Some_iff_ex: "(\<exists>i. findIndex p xs = Some i) \<longleftrightarrow> (\<exists>x\<in>set xs. p x)"
  using findIndex_None_iff [of p xs] by (cases "findIndex p xs") auto

lemma find_findIndex: "find p xs = map_option (\<lambda>i. xs ! i) (findIndex p xs)"
  by (induction xs) (auto simp: option.map_comp comp_def)
section \<open>Facts about the validation\<close>

lemma validate_keys_concat:
  "validate_keys g schema raw errors =
     errors @ concat (map (\<lambda>(key, s). validate_string g key s (raw key)) schema)"
  by (induction schema arbitrary: errors) auto

lemma validateRequest_Inr_iff:
  "validateRequest g schema raw = Inr value \<longleftrightarrow>
     (\<forall>(key, s)\<in>set schema. validate_string g key s (raw key) = [])
     \<and> value = raw |` set (map fst schema)"
proof -
  let ?errors = "concat (map (\<lambda>(key, s). validate_string g key s (raw key)) schema)"
  have v: "validate g schema raw = (?errors, raw |` set (map fst schema))"
    by (simp add: validate_def validate_keys_concat)
  have n: "?errors = [] \<longleftrightarrow> (\<forall>(key, s)\<in>set schema. validate_string g key s (raw key) = [])"
    by auto
  show ?thesis
  proof (cases ?errors)
    case Nil
    have "validateRequest g schema raw = Inr (raw |` set (map fst schema))"
      unfolding validateRequest_def v Nil by simp
    with Nil n show ?thesis by auto
  next
    case (Cons d ds)
    have "\<exists>l. validateRequest g schema raw = Inl l"
      unfolding validateRequest_def v Cons by simp
    with Cons n show ?thesis by auto
  qed
qed

lemma validate_string_Nil_iff:
  "validate_string g key s value = [] \<longleftrightarrow>
     (case value of
        None \<Rightarrow> \<not> presence s
      | Some (JString v) \<Rightarrow> v \<noteq> [] \<and> (\<forall>r\<in>set (rules s). rule_ok g r v)
      | Some _ \<Rightarrow> False)"
  by (auto simp: validate_string_def filter_empty_conv split: option.splits jsval.splits)

lemma sanitized_dom:
  assumes "validateRequest g schema raw = Inr value"
  shows "dom value \<subseteq> set (map fst schema)"
  using assms by (auto simp: validateRequest_Inr_iff restrict_map_def split: if_splits)

lemma sanitized_string:
  assumes "validateRequest g schema raw = Inr value" and "value key = Some x"
  shows "\<exists>v. x = JString v \<and> v \<noteq> []"
proof -
  from assms have k: "key \<in> set (map fst schema)" and r: "raw key = Some x"
    by (auto simp: validateRequest_Inr_iff restrict_map_def split: if_splits)
  from k obtain s where "(key, s) \<in> set schema" by auto
  with assms(1) have "validate_string g key s (raw key) = []"
    by (auto simp: validateRequest_Inr_iff)
  with r show ?thesis
    by (auto simp: validate_string_Nil_iff split: jsval.splits)
qed

lemma sanitized_required:
  assumes "validateRequest g schema raw = Inr value"
      and "(key, s) \<in> set schema" and "presence s"
  shows "\<exists>v. value key = Some (JString v) \<and> v \<noteq> []"
proof -
  from assms(1,2) have n: "validate_string g key s (raw key) = []"
    and v: "value key = raw key"
    by (force simp: validateRequest_Inr_iff restrict_map_def)+
  from n assms(3) show ?thesis unfolding v
    by (auto simp: validate_string_Nil_iff split: option.splits jsval.splits)
qed

lemma sanitized_update_payload:
  assumes "validateRequest g userUpdateSchema body = Inr partial"
  shows "dom partial \<subseteq> {''firstName'', ''lastName'', ''email'', ''phone''}"
    and "partial ''id'' = None" and "partial ''createdAt'' = None"
proof -
  from sanitized_dom [OF assms]
  show d: "dom partial \<subseteq> {''firstName'', ''lastName'', ''email'', ''phone''}"
    by (simp add: userUpdateSchema_def userBaseSchema_def)
  from d show "partial ''id'' = None" by (auto simp: domIff)
  from d show "partial ''createdAt'' = None" by (auto simp: domIff)
qed

lemma phone_bad: "\<not> regex_test phone_regex ''bad''"
  by code_simp

lemma item_path_validate_string:
  "d \<in> set (validate_string g key s x) \<Longrightarrow> item_path d = [key]"
  by (auto simp: validate_string_def report_def split: option.splits jsval.splits if_splits)
section \<open>Facts about the controllers\<close>

lemma find_append_new:
  "find p (xs @ [y]) =
     (case find p xs of None \<Rightarrow> (if p y then Some y else None) | Some x \<Rightarrow> Some x)"
  by (induction xs) auto

lemma find_None_all: "find p xs = None \<longleftrightarrow> (\<forall>x\<in>set xs. \<not> p x)"
  by (induction xs) auto

lemma getUserById_NotFound_iff:
  "getUserById users id' = Inl NotFound \<longleftrightarrow> (\<forall>u\<in>set users. u ''id'' \<noteq> id')"
  using findIndex_None_iff [of "\<lambda>user. user ''id'' = id'" users]
  by (cases "findIndex (\<lambda>user. user ''id'' = id') users")
     (auto simp: getUserById_def find_findIndex)

lemma getUserById_Inr_iff:
  "(\<exists>r. getUserById users id' = Inr r \<and> r ''id'' = id') \<longleftrightarrow> (\<exists>u\<in>set users. u ''id'' = id')"
proof (cases "findIndex (\<lambda>user. user ''id'' = id') users")
  case None
  then show ?thesis
    using findIndex_None_iff [of "\<lambda>user. user ''id'' = id'" users]
    by (auto simp: getUserById_def find_findIndex)
next
  case (Some i)
  from findIndex_Some_bound [OF Some] findIndex_Some_sat [OF Some]
  have "users ! i \<in> set users" "(users ! i) ''id'' = id'" by simp_all
  with Some show ?thesis by (auto simp: getUserById_def find_findIndex)
qed

lemma updateUser_NotFound_iff:
  "updateUser users id' partial now = (Inl NotFound, users) \<longleftrightarrow>
     (\<forall>u\<in>set users. u ''id'' \<noteq> id')"
  using findIndex_None_iff [of "\<lambda>user. user ''id'' = id'" users]
  by (cases "findIndex (\<lambda>user. user ''id'' = id') users") (auto simp: updateUser_def Let_def)

lemma updateUser_Inr_iff:
  "(\<exists>r. fst (updateUser users id' partial now) = Inr r) \<longleftrightarrow> (\<exists>u\<in>set users. u ''id'' = id')"
  using findIndex_None_iff [of "\<lambda>user. user ''id'' = id'" users]
  by (cases "findIndex (\<lambda>user. user ''id'' = id') users") (auto simp: updateUser_def Let_def)

lemma deleteUser_NotFound_iff:
  "deleteUser users id' = (Inl NotFound, users) \<longleftrightarrow> (\<forall>u\<in>set users. u ''id'' \<noteq> id')"
  using findIndex_None_iff [of "\<lambda>user. user ''id'' = id'" users]
  by (cases "findIndex (\<lambda>user. user ''id'' = id') users") (auto simp: deleteUser_def)

lemma deleteUser_Inr_iff:
  "(\<exists>r. fst (deleteUser users id') = Inr r \<and> r ''id'' = id') \<longleftrightarrow> (\<exists>u\<in>set users. u ''id'' = id')"
proof (cases "findIndex (\<lambda>user. user ''id'' = id') users")
  case None
  then show ?thesis
    using findIndex_None_iff [of "\<lambda>user. user ''id'' = id'" users]
    by (auto simp: deleteUser_def)
next
  case (Some i)
  from findIndex_Some_bound [OF Some] findIndex_Some_sat [OF Some]
  have "users ! i \<in> set users" "(users ! i) ''id'' = id'" by simp_all
  with Some show ?thesis by (auto simp: deleteUser_def)
qed

lemma testUsers_ids:
  "map (\<lambda>u. u ''id'') testUsers =
     [Some (JString ''1''), Some (JString ''2''), Some (JString ''3'')]"
  by (simp add: testUsers_def user_object_def)

lemma testUsers_findIndex_1: "findIndex (\<lambda>u. u ''id'' = Some (JString ''1'')) testUsers = Some 0"
  by (simp add: testUsers_def user_object_def)

section \<open>The controllers: update\<close>

text \<open>
  Claim C2. When the store holds a record with the identifier, \<open>updateUser\<close> with a
  payload over \<open>firstName\<close>, \<open>lastName\<close>, \<open>email\<close> and \<open>phone\<close> returns a
  record \<open>r\<close> and stores it at the index \<open>i\<close> of the old record, the first one with
  the identifier: the array keeps its length and every other element. Each field of the
  payload has the payload's value in \<open>r\<close>, each field absent from the payload (other
  than \<open>updatedAt\<close>) has the old record's value, and \<open>updatedAt\<close> is the reading of
  the clock. With the empty payload \<open>r\<close> is the old record with the new
  \<open>updatedAt\<close>.
\<close>

theorem updateUser_merge:
  assumes present: "\<exists>u\<in>set users. u ''id'' = id'"
      and fields: "dom partial \<subseteq> {''firstName'', ''lastName'', ''email'', ''phone''}"
  shows "\<exists>i r. updateUser users id' partial now = (Inr r, users[i := r])
           \<and> i < length users \<and> (users ! i) ''id'' = id'
           \<and> (\<forall>j<i. (users ! j) ''id'' \<noteq> id')
           \<and> (\<forall>k\<in>dom partial. r k = partial k)
           \<and> (\<forall>k. k \<notin> dom partial \<longrightarrow> k \<noteq> ''updatedAt'' \<longrightarrow> r k = (users ! i) k)
           \<and> r ''updatedAt'' = Some (JString now)
           \<and> length (users[i := r]) = length users
           \<and> users[i := r] ! i = r
           \<and> (\<forall>j<length users. j \<noteq> i \<longrightarrow> users[i := r] ! j = users ! j)
           \<and> updateUser users id' Map.empty now =
               (Inr ((users ! i)(''updatedAt'' \<mapsto> JString now)),
                users[i := (users ! i)(''updatedAt'' \<mapsto> JString now)])"
proof -
  from present obtain i where found: "findIndex (\<lambda>u. u ''id'' = id') users = Some i"
    using findIndex_Some_iff_ex [of "\<lambda>u. u ''id'' = id'" users] by blast
  let ?r = "(users ! i ++ partial)(''updatedAt'' \<mapsto> JString now)"
  have b: "i < length users" using found by (rule findIndex_Some_bound)
  have s: "(users ! i) ''id'' = id'" using found by (rule findIndex_Some_sat)
  have f: "\<forall>j<i. (users ! j) ''id'' \<noteq> id'"
    by (intro allI impI) (rule findIndex_Some_first [OF found])
  have u: "updateUser users id' partial now = (Inr ?r, users[i := ?r])"
    using found by (simp add: updateUser_def Let_def)
  have "''updatedAt'' \<notin> dom partial" using fields by auto
  then have p: "\<forall>k\<in>dom partial. ?r k = partial k"
    by (auto simp: map_add_def)
  have q: "\<forall>k. k \<notin> dom partial \<longrightarrow> k \<noteq> ''updatedAt'' \<longrightarrow> ?r k = (users ! i) k"
    by (auto simp: map_add_def split: option.splits)
  have t: "?r ''updatedAt'' = Some (JString now)" by simp
  have e: "updateUser users id' Map.empty now =
             (Inr ((users ! i)(''updatedAt'' \<mapsto> JString now)),
              users[i := (users ! i)(''updatedAt'' \<mapsto> JString now)])"
    using found by (simp add: updateUser_def Let_def)
  have l: "length (users[i := ?r]) = length users" by simp
  have n: "users[i := ?r] ! i = ?r" using b by simp
  have o: "\<forall>j<length users. j \<noteq> i \<longrightarrow> users[i := ?r] ! j = users ! j" by simp
  from u b s f p q t l n o e show ?thesis
    by (intro exI [of _ i] exI [of _ ?r] conjI)
qed

theorem updateUser_merge_witness:
  "(\<exists>u\<in>set testUsers. u ''id'' = Some (JString ''1''))
   \<and> dom [''lastName'' \<mapsto> JString ''X''] \<subseteq> {''firstName'', ''lastName'', ''email'', ''phone''}
   \<and> (\<exists>i r. updateUser testUsers (Some (JString ''1'')) [''lastName'' \<mapsto> JString ''X'']
              ''2024-02-15T12:30:00.000Z'' = (Inr r, testUsers[i := r])
          \<and> (testUsers ! i) ''id'' = Some (JString ''1'')
          \<and> r ''lastName'' = Some (JString ''X'')
          \<and> r ''firstName'' = (testUsers ! i) ''firstName''
          \<and> r ''id'' = Some (JString ''1'')
          \<and> r ''updatedAt'' = Some (JString ''2024-02-15T12:30:00.000Z''))"
proof -
  let ?p = "[''lastName'' \<mapsto> JString ''X'']"
  have present: "\<exists>u\<in>set testUsers. u ''id'' = Some (JString ''1'')"
    by (simp add: testUsers_def user_object_def)
  have fields: "dom ?p \<subseteq> {''firstName'', ''lastName'', ''email'', ''phone''}"
    by simp
  from updateUser_merge [OF present fields, of "''2024-02-15T12:30:00.000Z''"]
  obtain i r where r: "updateUser testUsers (Some (JString ''1'')) ?p
              ''2024-02-15T12:30:00.000Z'' = (Inr r, testUsers[i := r])"
      "(testUsers ! i) ''id'' = Some (JString ''1'')"
      "\<forall>k\<in>dom ?p. r k = ?p k"
      "\<forall>k. k \<notin> dom ?p \<longrightarrow> k \<noteq> ''updatedAt'' \<longrightarrow> r k = (testUsers ! i) k"
      "r ''updatedAt'' = Some (JString ''2024-02-15T12:30:00.000Z'')"
    by (elim exE conjE) (rule that, assumption+)
  have "''lastName'' \<in> dom ?p" by simp
  with r(3) have "r ''lastName'' = ?p ''lastName''" by (rule bspec)
  then have l: "r ''lastName'' = Some (JString ''X'')" by simp
  have nf: "''firstName'' \<notin> dom ?p" and ni: "''id'' \<notin> dom ?p" by simp_all
  have df: "''firstName'' \<noteq> ''updatedAt''" and di: "''id'' \<noteq> ''updatedAt''" by simp_all
  have f: "r ''firstName'' = (testUsers ! i) ''firstName''"
    by (rule r(4) [rule_format, OF nf df])
  have "r ''id'' = (testUsers ! i) ''id''"
    by (rule r(4) [rule_format, OF ni di])
  then have d: "r ''id'' = Some (JString ''1'')" unfolding r(2) .
  from r(1,2) l f d r(5)
  have "\<exists>i r. updateUser testUsers (Some (JString ''1'')) ?p
              ''2024-02-15T12:30:00.000Z'' = (Inr r, testUsers[i := r])
          \<and> (testUsers ! i) ''id'' = Some (JString ''1'')
          \<and> r ''lastName'' = Some (JString ''X'')
          \<and> r ''firstName'' = (testUsers ! i) ''firstName''
          \<and> r ''id'' = Some (JString ''1'')
          \<and> r ''updatedAt'' = Some (JString ''2024-02-15T12:30:00.000Z'')"
    by (intro exI [of _ i] exI [of _ r] conjI)
  with present fields show ?thesis by (intro conjI)
qed

text \<open>
  Claim C1 does not hold for every payload. \<open>updateUser\<close> spreads the payload over
  the stored record, so a payload that carries \<open>id\<close> or \<open>createdAt\<close> overwrites
  them: on the test array, updating user \<open>1\<close> with
  \<open>{id: '999', createdAt: '1999-12-31T23:59:59.000Z'}\<close> returns a record with that
  identifier and that creation time.
\<close>

theorem updateUser_overwrites_supplied_id:
  "(testUsers ! 0) ''id'' = Some (JString ''1'')
   \<and> (testUsers ! 0) ''createdAt'' = Some (JString ''2024-01-01T00:00:00.000Z'')
   \<and> (case fst (updateUser testUsers (Some (JString ''1''))
                   [''id'' \<mapsto> JString ''999'',
                    ''createdAt'' \<mapsto> JString ''1999-12-31T23:59:59.000Z'']
                   ''2024-02-15T12:30:00.000Z'') of
         Inl e \<Rightarrow> False
       | Inr r \<Rightarrow> r ''id'' = Some (JString ''999'')
                  \<and> r ''createdAt'' = Some (JString ''1999-12-31T23:59:59.000Z''))"
  by (simp add: testUsers_def user_object_def updateUser_def Let_def)

text \<open>
  Claim C1, amended. When the store holds a record with the identifier and the payload
  carries neither \<open>id\<close> nor \<open>createdAt\<close>, the record that \<open>updateUser\<close>
  returns and stores has the identifier and the creation time of the record it replaces.
  Every body sanitized by \<open>userUpdateSchema\<close> is such a payload (lemma
  \<open>sanitized_update_payload\<close>): the protection of the two fields is the validation in
  front of the controller.
\<close>

theorem updateUser_keeps_id_createdAt:
  assumes present: "\<exists>u\<in>set users. u ''id'' = id'"
      and no_id: "partial ''id'' = None"
      and no_createdAt: "partial ''createdAt'' = None"
  shows "\<exists>i r. findIndex (\<lambda>u. u ''id'' = id') users = Some i
           \<and> updateUser users id' partial now = (Inr r, users[i := r])
           \<and> r ''id'' = id' \<and> r ''id'' = (users ! i) ''id''
           \<and> r ''createdAt'' = (users ! i) ''createdAt''"
proof -
  from present obtain i where found: "findIndex (\<lambda>u. u ''id'' = id') users = Some i"
    using findIndex_Some_iff_ex [of "\<lambda>u. u ''id'' = id'" users] by blast
  let ?r = "(users ! i ++ partial)(''updatedAt'' \<mapsto> JString now)"
  have s: "(users ! i) ''id'' = id'" using found by (rule findIndex_Some_sat)
  have u: "updateUser users id' partial now = (Inr ?r, users[i := ?r])"
    using found by (simp add: updateUser_def Let_def)
  have "?r ''id'' = (users ! i) ''id''" using no_id by (simp add: map_add_def)
  moreover have "?r ''createdAt'' = (users ! i) ''createdAt''"
    using no_createdAt by (simp add: map_add_def)
  ultimately show ?thesis using found s u by (intro exI [of _ i] exI [of _ ?r]) simp
qed

theorem updateUser_keeps_id_createdAt_witness:
  "(\<exists>u\<in>set testUsers. u ''id'' = Some (JString ''1''))
   \<and> [''firstName'' \<mapsto> JString ''Johnny''] ''id'' = None
   \<and> [''firstName'' \<mapsto> JString ''Johnny''] ''createdAt'' = None
   \<and> (\<exists>i r. findIndex (\<lambda>u. u ''id'' = Some (JString ''1'')) testUsers = Some i
           \<and> updateUser testUsers (Some (JString ''1'')) [''firstName'' \<mapsto> JString ''Johnny'']
                ''2024-02-15T12:30:00.000Z'' = (Inr r, testUsers[i := r])
           \<and> r ''id'' = Some (JString ''1'') \<and> r ''id'' = (testUsers ! i) ''id''
           \<and> r ''createdAt'' = (testUsers ! i) ''createdAt'')"
proof -
  have present: "\<exists>u\<in>set testUsers. u ''id'' = Some (JString ''1'')"
    by (simp add: testUsers_def user_object_def)
  have no_id: "[''firstName'' \<mapsto> JString ''Johnny''] ''id'' = None" by simp
  have no_createdAt: "[''firstName'' \<mapsto> JString ''Johnny''] ''createdAt'' = None" by simp
  show ?thesis
    by (intro conjI present no_id no_createdAt
          updateUser_keeps_id_createdAt [OF present no_id no_createdAt])
qed
section \<open>The controllers: lookup failures\<close>

text \<open>
  Claim C3. \<open>getUserById\<close>, \<open>updateUser\<close> and \<open>deleteUser\<close> fail with
  \<open>NotFound\<close> exactly when no stored record has the identifier, compared with
  \<open>===\<close> (so the case of the letters counts), and a failing update or delete leaves
  the array as it was; each returns a record exactly when some stored record has the
  identifier. When the stored identifiers are non-empty strings, the empty string,
  \<open>null\<close> and \<open>undefined\<close> are therefore not found, and on the empty array every
  identifier is not found.
\<close>

theorem not_found_exactly_when_absent:
  "((getUserById users id' = Inl NotFound) = (\<forall>u\<in>set users. u ''id'' \<noteq> id'))
   \<and> ((updateUser users id' partial now = (Inl NotFound, users))
         = (\<forall>u\<in>set users. u ''id'' \<noteq> id'))
   \<and> ((deleteUser users id' = (Inl NotFound, users)) = (\<forall>u\<in>set users. u ''id'' \<noteq> id'))
   \<and> ((\<exists>r. getUserById users id' = Inr r \<and> r ''id'' = id')
         = (\<exists>u\<in>set users. u ''id'' = id'))
   \<and> ((\<exists>r. fst (updateUser users id' partial now) = Inr r)
         = (\<exists>u\<in>set users. u ''id'' = id'))
   \<and> ((\<exists>r. fst (deleteUser users id') = Inr r \<and> r ''id'' = id')
         = (\<exists>u\<in>set users. u ''id'' = id'))
   \<and> ((\<forall>u\<in>set users. \<exists>s. u ''id'' = Some (JString s) \<and> s \<noteq> []) \<longrightarrow>
        id' \<in> {None, Some JNull, Some (JString [])} \<longrightarrow>
          getUserById users id' = Inl NotFound
          \<and> updateUser users id' partial now = (Inl NotFound, users)
          \<and> deleteUser users id' = (Inl NotFound, users))
   \<and> getUserById [] id' = Inl NotFound
   \<and> updateUser [] id' partial now = (Inl NotFound, [])
   \<and> deleteUser [] id' = (Inl NotFound, [])"
proof -
  have typed: "(\<forall>u\<in>set users. \<exists>s. u ''id'' = Some (JString s) \<and> s \<noteq> []) \<longrightarrow>
        id' \<in> {None, Some JNull, Some (JString [])} \<longrightarrow>
          getUserById users id' = Inl NotFound
          \<and> updateUser users id' partial now = (Inl NotFound, users)
          \<and> deleteUser users id' = (Inl NotFound, users)"
  proof (intro impI)
    assume t: "\<forall>u\<in>set users. \<exists>s. u ''id'' = Some (JString s) \<and> s \<noteq> []"
      and i: "id' \<in> {None, Some JNull, Some (JString [])}"
    have "\<forall>u\<in>set users. u ''id'' \<noteq> id'"
    proof
      fix u assume "u \<in> set users"
      with t obtain s where "u ''id'' = Some (JString s)" "s \<noteq> []" by blast
      with i show "u ''id'' \<noteq> id'" by auto
    qed
    then show "getUserById users id' = Inl NotFound
          \<and> updateUser users id' partial now = (Inl NotFound, users)
          \<and> deleteUser users id' = (Inl NotFound, users)"
      by (simp only: getUserById_NotFound_iff updateUser_NotFound_iff deleteUser_NotFound_iff)
  qed
  have e1: "getUserById [] id' = Inl NotFound" by (simp add: getUserById_def)
  have e2: "updateUser [] id' partial now = (Inl NotFound, [])" by (simp add: updateUser_def)
  have e3: "deleteUser [] id' = (Inl NotFound, [])" by (simp add: deleteUser_def)
  show ?thesis
    by (intro conjI getUserById_NotFound_iff updateUser_NotFound_iff deleteUser_NotFound_iff
          getUserById_Inr_iff updateUser_Inr_iff deleteUser_Inr_iff typed e1 e2 e3)
qed

theorem not_found_exactly_when_absent_witness:
  "getUserById testUsers (Some (JString ''nonexistent-id'')) = Inl NotFound
   \<and> getUserById testUsers None = Inl NotFound
   \<and> updateUser testUsers (Some JNull) Map.empty ''2024-02-15T12:30:00.000Z''
       = (Inl NotFound, testUsers)
   \<and> deleteUser testUsers (Some (JString [])) = (Inl NotFound, testUsers)
   \<and> (\<exists>r. getUserById testUsers (Some (JString ''2'')) = Inr r
          \<and> r ''id'' = Some (JString ''2''))"
proof -
  have absent: "\<forall>u\<in>set testUsers. u ''id'' \<noteq> Some (JString ''nonexistent-id'')"
    by (simp add: testUsers_def user_object_def)
  have typed: "\<forall>u\<in>set testUsers. \<exists>s. u ''id'' = Some (JString s) \<and> s \<noteq> []"
    by (simp add: testUsers_def user_object_def)
  have present: "\<exists>u\<in>set testUsers. u ''id'' = Some (JString ''2'')"
    by (simp add: testUsers_def user_object_def)
  note main = not_found_exactly_when_absent
  have a: "getUserById testUsers (Some (JString ''nonexistent-id'')) = Inl NotFound"
    by (rule iffD2 [OF main [THEN conjunct1] absent])
  have "None \<in> {None, Some JNull, Some (JString [])}" by simp
  with main [of testUsers None Map.empty "[]"] typed
  have b: "getUserById testUsers None = Inl NotFound" by blast
  have "Some JNull \<in> {None, Some JNull, Some (JString [])}" by simp
  with main [of testUsers "Some JNull" Map.empty "''2024-02-15T12:30:00.000Z''"] typed
  have c: "updateUser testUsers (Some JNull) Map.empty ''2024-02-15T12:30:00.000Z''
             = (Inl NotFound, testUsers)" by blast
  have "Some (JString []) \<in> {None, Some JNull, Some (JString [])}" by simp
  with main [of testUsers "Some (JString [])" Map.empty "[]"] typed
  have d: "deleteUser testUsers (Some (JString [])) = (Inl NotFound, testUsers)" by blast
  have e: "\<exists>r. getUserById testUsers (Some (JString ''2'')) = Inr r
              \<and> r ''id'' = Some (JString ''2'')"
    by (rule iffD2 [OF main [THEN conjunct2, THEN conjunct2, THEN conjunct2, THEN conjunct1]
          present])
  from a b c d e show ?thesis by (intro conjI)
qed

section \<open>The controllers: delete\<close>

text \<open>
  Claim C7. When the store holds a record with the identifier, \<open>deleteUser\<close> returns
  that record (the first one with the identifier), the array is shorter by exactly one,
  and the elements before the removed index stay where they were while the elements
  after it move up by one, so the remaining records keep their relative order. When the
  identifiers of the store are pairwise distinct (the invariant of the store, which
  every reachable store has: lemma \<open>reachable_store_invariant\<close>), \<open>getUserById\<close>
  with the identifier fails with \<open>NotFound\<close> afterwards.
\<close>

theorem deleteUser_removes:
  assumes present: "\<exists>u\<in>set users. u ''id'' = id'"
  shows "\<exists>i users'. deleteUser users id' = (Inr (users ! i), users')
           \<and> i < length users \<and> (users ! i) ''id'' = id'
           \<and> (\<forall>j<i. (users ! j) ''id'' \<noteq> id')
           \<and> Suc (length users') = length users
           \<and> users' = take i users @ drop (Suc i) users
           \<and> (\<forall>j<i. users' ! j = users ! j)
           \<and> (\<forall>j. i \<le> j \<longrightarrow> j < length users' \<longrightarrow> users' ! j = users ! Suc j)
           \<and> (distinct (map (\<lambda>u. u ''id'') users) \<longrightarrow>
                 getUserById users' id' = Inl NotFound)"
proof -
  from present obtain i where found: "findIndex (\<lambda>u. u ''id'' = id') users = Some i"
    using findIndex_Some_iff_ex [of "\<lambda>u. u ''id'' = id'" users] by blast
  let ?users' = "take i users @ drop (Suc i) users"
  have b: "i < length users" using found by (rule findIndex_Some_bound)
  have s: "(users ! i) ''id'' = id'" using found by (rule findIndex_Some_sat)
  have f: "\<forall>j<i. (users ! j) ''id'' \<noteq> id'"
    by (intro allI impI) (rule findIndex_Some_first [OF found])
  have d: "deleteUser users id' = (Inr (users ! i), ?users')"
    using found by (simp add: deleteUser_def)
  have len: "Suc (length ?users') = length users" using b by simp
  have before: "\<forall>j<i. ?users' ! j = users ! j"
    using b by (simp add: nth_append)
  have after: "\<forall>j. i \<le> j \<longrightarrow> j < length ?users' \<longrightarrow> ?users' ! j = users ! Suc j"
    using b by (auto simp: nth_append min_def)
  have gone: "distinct (map (\<lambda>u. u ''id'') users) \<longrightarrow> getUserById ?users' id' = Inl NotFound"
  proof
    assume uniq: "distinct (map (\<lambda>u. u ''id'') users)"
    have "\<forall>u\<in>set ?users'. u ''id'' \<noteq> id'"
    proof
      fix u assume "u \<in> set ?users'"
      then consider "u \<in> set (take i users)" | "u \<in> set (drop (Suc i) users)"
        by auto
      then obtain j where j: "j < length users" "j \<noteq> i" "u = users ! j"
      proof cases
        case 1
        then obtain k where "k < i" "u = users ! k"
          using b by (auto simp: in_set_conv_nth)
        with b that [of k] show ?thesis by simp
      next
        case 2
        then obtain k where "k < length users - Suc i" "u = users ! (Suc i + k)"
          by (auto simp: in_set_conv_nth)
        with that [of "Suc i + k"] show ?thesis by simp
      qed
      have "map (\<lambda>u. u ''id'') users ! j \<noteq> map (\<lambda>u. u ''id'') users ! i"
        using nth_eq_iff_index_eq [OF uniq, of j i] j(1,2) b by simp
      with j b s show "u ''id'' \<noteq> id'" by simp
    qed
    then show "getUserById ?users' id' = Inl NotFound"
      by (simp only: getUserById_NotFound_iff)
  qed
  from d b s f len refl before after gone show ?thesis
    by (intro exI [of _ i] exI [of _ ?users'] conjI)
qed

theorem deleteUser_removes_witness:
  "(\<exists>u\<in>set testUsers. u ''id'' = Some (JString ''2''))
   \<and> distinct (map (\<lambda>u. u ''id'') testUsers)
   \<and> (\<exists>i users'. deleteUser testUsers (Some (JString ''2'')) = (Inr (testUsers ! i), users')
           \<and> (testUsers ! i) ''id'' = Some (JString ''2'')
           \<and> Suc (length users') = length testUsers
           \<and> getUserById users' (Some (JString ''2'')) = Inl NotFound)"
proof -
  have present: "\<exists>u\<in>set testUsers. u ''id'' = Some (JString ''2'')"
    by (simp add: testUsers_def user_object_def)
  have uniq: "distinct (map (\<lambda>u. u ''id'') testUsers)"
    by (simp add: testUsers_ids)
  from deleteUser_removes [OF present]
  obtain i users' where r:
      "deleteUser testUsers (Some (JString ''2'')) = (Inr (testUsers ! i), users')"
      "(testUsers ! i) ''id'' = Some (JString ''2'')"
      "Suc (length users') = length testUsers"
      "distinct (map (\<lambda>u. u ''id'') testUsers) \<longrightarrow>
         getUserById users' (Some (JString ''2'')) = Inl NotFound"
    by (elim exE conjE) (rule that, assumption+)
  from r(4) uniq have g: "getUserById users' (Some (JString ''2'')) = Inl NotFound"
    by (rule mp)
  from r(1-3) g
  have "\<exists>i users'. deleteUser testUsers (Some (JString ''2'')) = (Inr (testUsers ! i), users')
           \<and> (testUsers ! i) ''id'' = Some (JString ''2'')
           \<and> Suc (length users') = length testUsers
           \<and> getUserById users' (Some (JString ''2'')) = Inl NotFound"
    by (intro exI [of _ i] exI [of _ users'] conjI)
  with present uniq show ?thesis by (intro conjI)
qed

section \<open>The controllers: create\<close>

text \<open>
  Claim C10. Whatever fields the input of \<open>createNewUser\<close> has, the record it returns
  carries the identifier that \<open>randomUUID()\<close> returned as \<open>id\<close> and the two readings
  of the clock as \<open>createdAt\<close> and \<open>updatedAt\<close>: the three fields are written after
  the spread of the input, so values the caller supplied for them do not survive. The
  stored record, the last element of the array, is the returned one.
\<close>

theorem createNewUser_generated_fields:
  "fst (createNewUser users user uuid now1 now2) ''id'' = Some (JString uuid) \<and>
   fst (createNewUser users user uuid now1 now2) ''createdAt'' = Some (JString now1) \<and>
   fst (createNewUser users user uuid now1 now2) ''updatedAt'' = Some (JString now2) \<and>
   snd (createNewUser users user uuid now1 now2) =
     users @ [fst (createNewUser users user uuid now1 now2)]"
  by (simp add: createNewUser_def Let_def)

text \<open>
  Claim C8. When the identifier that \<open>randomUUID()\<close> returned is not the identifier of
  a stored record, \<open>getUserById\<close> on the array after \<open>createNewUser\<close>, with the
  \<open>id\<close> of the record that \<open>createNewUser\<close> returned, succeeds and returns that
  very record. This holds for every input object, so for every valid one.
\<close>

theorem create_then_read:
  assumes fresh: "\<forall>u\<in>set users. u ''id'' \<noteq> Some (JString uuid)"
  shows "getUserById (snd (createNewUser users x uuid now1 now2))
           (fst (createNewUser users x uuid now1 now2) ''id'')
         = Inr (fst (createNewUser users x uuid now1 now2))"
proof -
  have "find (\<lambda>user. user ''id'' = Some (JString uuid)) users = None"
    using fresh by (simp add: find_None_all)
  then show ?thesis
    by (simp add: createNewUser_def getUserById_def Let_def find_append_new)
qed

theorem create_then_read_witness:
  "Some (JString ''123e4567-e89b-12d3-a456-426614174000'') \<notin> set (map (\<lambda>u. u ''id'') testUsers)
   \<and> getUserById
        (snd (createNewUser testUsers
                [''firstName'' \<mapsto> JString ''Alice'', ''lastName'' \<mapsto> JString ''Johnson'']
                ''123e4567-e89b-12d3-a456-426614174000''
                ''2024-01-15T10:30:00.000Z'' ''2024-01-15T10:30:00.000Z''))
        (fst (createNewUser testUsers
                [''firstName'' \<mapsto> JString ''Alice'', ''lastName'' \<mapsto> JString ''Johnson'']
                ''123e4567-e89b-12d3-a456-426614174000''
                ''2024-01-15T10:30:00.000Z'' ''2024-01-15T10:30:00.000Z'') ''id'')
      = Inr (fst (createNewUser testUsers
                [''firstName'' \<mapsto> JString ''Alice'', ''lastName'' \<mapsto> JString ''Johnson'']
                ''123e4567-e89b-12d3-a456-426614174000''
                ''2024-01-15T10:30:00.000Z'' ''2024-01-15T10:30:00.000Z''))"
proof -
  have new: "Some (JString ''123e4567-e89b-12d3-a456-426614174000'')
               \<notin> set (map (\<lambda>u. u ''id'') testUsers)"
    by (simp add: testUsers_ids)
  have fresh:
    "\<forall>u\<in>set testUsers. u ''id'' \<noteq> Some (JString ''123e4567-e89b-12d3-a456-426614174000'')"
  proof (intro ballI notI)
    fix u assume m: "u \<in> set testUsers"
      and e: "u ''id'' = Some (JString ''123e4567-e89b-12d3-a456-426614174000'')"
    from m have "u ''id'' \<in> set (map (\<lambda>u. u ''id'') testUsers)"
      unfolding set_map by (rule imageI)
    from this [unfolded e] have "Some (JString ''123e4567-e89b-12d3-a456-426614174000'')
                 \<in> set (map (\<lambda>u. u ''id'') testUsers)" .
    with new show False by (rule notE)
  qed
  show ?thesis
    by (rule conjI [OF new create_then_read [OF fresh]])
qed
section \<open>Validation: all violations, in declaration order\<close>

text \<open>
  Claim C4. For every schema and raw input the list of violations is the concatenation,
  in the declaration order of the fields, of the violations of each declared field: no
  field is skipped after an earlier one failed, every violation of a field is in the list
  with the field as its path, and the violations of one field are adjacent.
  \<open>validateRequest\<close> answers with that list, entry by entry, when it is not empty. In
  particular, when \<open>bad\<close> is not an email address, validating
  \<open>{firstName: "Alice", lastName: "Johnson", email: "bad", phone: "bad"}\<close> against
  \<open>userCreateSchema\<close> fails with exactly two entries, with the paths \<open>email\<close> and
  \<open>phone\<close> in that order.
\<close>

theorem validate_collects_all_violations:
  "fst (validate g schema raw)
     = concat (map (\<lambda>(key, s). validate_string g key s (raw key)) schema)
   \<and> (\<forall>(key, s)\<in>set schema. \<forall>d\<in>set (validate_string g key s (raw key)).
         d \<in> set (fst (validate g schema raw)) \<and> item_path d = [key])
   \<and> (fst (validate g schema raw) \<noteq> [] \<longrightarrow>
         validateRequest g schema raw =
           Inl (map (\<lambda>d. \<lparr>path = join (item_path d) ''.'', message = item_message d\<rparr>)
                  (fst (validate g schema raw))))
   \<and> (\<not> g EmailFormat ''bad'' \<longrightarrow>
         validateRequest g userCreateSchema
           [''firstName'' \<mapsto> JString ''Alice'', ''lastName'' \<mapsto> JString ''Johnson'',
            ''email'' \<mapsto> JString ''bad'', ''phone'' \<mapsto> JString ''bad'']
         = Inl [\<lparr>path = ''email'', message = Custom ''Invalid email address''\<rparr>,
                \<lparr>path = ''phone'', message = Custom ''Invalid phone number''\<rparr>])"
proof -
  have all: "fst (validate g schema raw)
     = concat (map (\<lambda>(key, s). validate_string g key s (raw key)) schema)"
    by (simp add: validate_def validate_keys_concat)
  have each: "\<forall>(key, s)\<in>set schema. \<forall>d\<in>set (validate_string g key s (raw key)).
         d \<in> set (fst (validate g schema raw)) \<and> item_path d = [key]"
  proof (intro ballI, clarify)
    fix key s d
    assume m: "(key, s) \<in> set schema" and d: "d \<in> set (validate_string g key s (raw key))"
    from m have "validate_string g key s (raw key)
        \<in> set (map (\<lambda>(key, s). validate_string g key s (raw key)) schema)"
      unfolding set_map by (rule image_eqI [rotated]) simp
    with d have "d \<in> set (fst (validate g schema raw))"
      unfolding all set_concat by (rule UN_I [rotated])
    moreover from d have "item_path d = [key]"
      by (rule item_path_validate_string)
    ultimately show "d \<in> set (fst (validate g schema raw)) \<and> item_path d = [key]" ..
  qed
  have answer: "fst (validate g schema raw) \<noteq> [] \<longrightarrow>
         validateRequest g schema raw =
           Inl (map (\<lambda>d. \<lparr>path = join (item_path d) ''.'', message = item_message d\<rparr>)
                  (fst (validate g schema raw)))"
  proof (cases "validate g schema raw")
    case (Pair errors v)
    then show ?thesis
      by (cases errors) (simp_all add: validateRequest_def)
  qed
  have scenario: "\<not> g EmailFormat ''bad'' \<longrightarrow>
         validateRequest g userCreateSchema
           [''firstName'' \<mapsto> JString ''Alice'', ''lastName'' \<mapsto> JString ''Johnson'',
            ''email'' \<mapsto> JString ''bad'', ''phone'' \<mapsto> JString ''bad'']
         = Inl [\<lparr>path = ''email'', message = Custom ''Invalid email address''\<rparr>,
                \<lparr>path = ''phone'', message = Custom ''Invalid phone number''\<rparr>]"
    using phone_bad
    by (simp add: validateRequest_def validate_def userCreateSchema_def userBaseSchema_def
        Joi_fork_def validate_string_def emailSchema_def phoneSchema_def Joi_string_def
        Joi_email_def Joi_pattern_def Joi_messages_def Joi_required_def report_def)
  from all each answer scenario show ?thesis by (intro conjI)
qed

theorem validate_collects_all_violations_witness:
  "\<not> sample_grammar EmailFormat ''bad''
   \<and> validateRequest sample_grammar userCreateSchema
        [''firstName'' \<mapsto> JString ''Alice'', ''lastName'' \<mapsto> JString ''Johnson'',
         ''email'' \<mapsto> JString ''bad'', ''phone'' \<mapsto> JString ''bad'']
      = Inl [\<lparr>path = ''email'', message = Custom ''Invalid email address''\<rparr>,
             \<lparr>path = ''phone'', message = Custom ''Invalid phone number''\<rparr>]"
proof -
  have bad: "\<not> sample_grammar EmailFormat ''bad''"
    by (simp add: sample_grammar_def)
  note main = validate_collects_all_violations [of sample_grammar]
  show ?thesis
    by (rule conjI [OF bad mp [OF main [THEN conjunct2, THEN conjunct2, THEN conjunct2] bad]])
qed

section \<open>Validation: the update schema\<close>

text \<open>
  Claim C9. Against \<open>userUpdateSchema\<close> the four fields are optional: a body in which
  \<open>firstName\<close>, \<open>lastName\<close>, \<open>email\<close> and \<open>phone\<close> are all absent validates,
  whatever other fields it has, and its sanitized value is the empty object; so does the
  empty body. In general a body validates exactly when each of the four fields is either
  absent or a non-empty string, where a present \<open>email\<close> must also be an email address
  and a present \<open>phone\<close> must also match the phone pattern: the two checks apply only
  to a field that is present.
\<close>

theorem userUpdateSchema_all_optional:
  "(raw ''firstName'' = None \<and> raw ''lastName'' = None
      \<and> raw ''email'' = None \<and> raw ''phone'' = None
     \<longrightarrow> validateRequest g userUpdateSchema raw = Inr Map.empty)
   \<and> validateRequest g userUpdateSchema Map.empty = Inr Map.empty
   \<and> ((\<exists>value. validateRequest g userUpdateSchema raw = Inr value) =
        ((raw ''firstName'' = None \<or> (\<exists>v. raw ''firstName'' = Some (JString v) \<and> v \<noteq> []))
       \<and> (raw ''lastName'' = None \<or> (\<exists>v. raw ''lastName'' = Some (JString v) \<and> v \<noteq> []))
       \<and> (raw ''email'' = None
            \<or> (\<exists>v. raw ''email'' = Some (JString v) \<and> v \<noteq> [] \<and> g EmailFormat v))
       \<and> (raw ''phone'' = None
            \<or> (\<exists>v. raw ''phone'' = Some (JString v) \<and> v \<noteq> [] \<and> regex_test phone_regex v))))"
proof -
  have plain: "validate_string g key Joi_string x = [] \<longleftrightarrow>
      (x = None \<or> (\<exists>v. x = Some (JString v) \<and> v \<noteq> []))" for key x
    by (auto simp: validate_string_Nil_iff Joi_string_def split: option.splits jsval.splits)
  have mail: "validate_string g key emailSchema x = [] \<longleftrightarrow>
      (x = None \<or> (\<exists>v. x = Some (JString v) \<and> v \<noteq> [] \<and> g EmailFormat v))"
    for key x
    by (auto simp: validate_string_Nil_iff emailSchema_def Joi_string_def Joi_email_def
          Joi_messages_def split: option.splits jsval.splits)
  have phone: "validate_string g key phoneSchema x = [] \<longleftrightarrow>
      (x = None \<or> (\<exists>v. x = Some (JString v) \<and> v \<noteq> [] \<and> regex_test phone_regex v))"
    for key x
    by (auto simp: validate_string_Nil_iff phoneSchema_def Joi_string_def Joi_pattern_def
          Joi_messages_def split: option.splits jsval.splits)
  have iff: "(\<exists>value. validateRequest g userUpdateSchema raw = Inr value) =
        ((raw ''firstName'' = None \<or> (\<exists>v. raw ''firstName'' = Some (JString v) \<and> v \<noteq> []))
       \<and> (raw ''lastName'' = None \<or> (\<exists>v. raw ''lastName'' = Some (JString v) \<and> v \<noteq> []))
       \<and> (raw ''email'' = None
            \<or> (\<exists>v. raw ''email'' = Some (JString v) \<and> v \<noteq> [] \<and> g EmailFormat v))
       \<and> (raw ''phone'' = None
            \<or> (\<exists>v. raw ''phone'' = Some (JString v) \<and> v \<noteq> [] \<and> regex_test phone_regex v)))"
    by (simp add: validateRequest_Inr_iff userUpdateSchema_def userBaseSchema_def
          plain mail phone)
  have absent: "raw ''firstName'' = None \<and> raw ''lastName'' = None
      \<and> raw ''email'' = None \<and> raw ''phone'' = None
     \<longrightarrow> validateRequest g userUpdateSchema raw = Inr Map.empty"
  proof
    assume a: "raw ''firstName'' = None \<and> raw ''lastName'' = None
      \<and> raw ''email'' = None \<and> raw ''phone'' = None"
    then have "raw |` set (map fst userUpdateSchema) = Map.empty"
      by (auto simp: restrict_map_def fun_eq_iff userUpdateSchema_def userBaseSchema_def)
    with a show "validateRequest g userUpdateSchema raw = Inr Map.empty"
      by (simp add: validateRequest_Inr_iff userUpdateSchema_def userBaseSchema_def
            plain mail phone)
  qed
  have "validateRequest g userUpdateSchema Map.empty = Inr Map.empty"
    by (simp add: validateRequest_Inr_iff userUpdateSchema_def userBaseSchema_def
          plain mail phone)
  with absent iff show ?thesis by (intro conjI)
qed

theorem userUpdateSchema_all_optional_witness:
  "[''unknownField'' \<mapsto> JString ''x'', ''id'' \<mapsto> JNumber 5] ''firstName'' = None
   \<and> validateRequest sample_grammar userUpdateSchema
        [''unknownField'' \<mapsto> JString ''x'', ''id'' \<mapsto> JNumber 5] = Inr Map.empty"
proof -
  let ?raw = "[''unknownField'' \<mapsto> JString ''x'', ''id'' \<mapsto> JNumber 5]"
  have a: "?raw ''firstName'' = None \<and> ?raw ''lastName'' = None
      \<and> ?raw ''email'' = None \<and> ?raw ''phone'' = None"
    by simp
  have f: "?raw ''firstName'' = None" by simp
  note main = userUpdateSchema_all_optional [of ?raw sample_grammar]
  show ?thesis
    by (rule conjI [OF f mp [OF main [THEN conjunct1] a]])
qed

text \<open>
  The second declaration of the update schema behaves differently: it requires
  \<open>firstName\<close>, \<open>lastName\<close> and \<open>id\<close>, so it rejects the empty body, and every
  body it accepts carries an \<open>id\<close> through to the controller. No route of its router
  uses it.
\<close>

lemma userUpdateSchema2_requires:
  "validateRequest g userUpdateSchema2 Map.empty =
     Inl [\<lparr>path = ''firstName'', message = Default ''any.required'' ''firstName''\<rparr>,
          \<lparr>path = ''lastName'', message = Default ''any.required'' ''lastName''\<rparr>,
          \<lparr>path = ''id'', message = Default ''any.required'' ''id''\<rparr>]"
  by (simp add: validateRequest_def validate_def userUpdateSchema2_def userBaseSchema2_def
      validate_string_def emailSchema_def phoneSchema_def Joi_string_def Joi_email_def
      Joi_pattern_def Joi_messages_def Joi_required_def report_def Joi_append_def idSchema_def
      Joi_uuid_def)
lemma userUpdateSchema2_carries_id:
  assumes "validateRequest g userUpdateSchema2 body = Inr partial"
  shows "partial ''id'' = body ''id''" and "\<exists>v. partial ''id'' = Some (JString v)"
proof -
  have k: "(''id'', idSchema) \<in> set userUpdateSchema2"
    by (simp add: userUpdateSchema2_def Joi_append_def)
  then have m: "''id'' \<in> set (map fst userUpdateSchema2)"
    unfolding set_map by (rule image_eqI [rotated]) simp
  from assms have "partial = body |` set (map fst userUpdateSchema2)"
    unfolding validateRequest_Inr_iff ..
  then show "partial ''id'' = body ''id''"
    using m by (simp only: restrict_map_def if_True)
  have "presence idSchema"
    by (simp add: idSchema_def Joi_required_def)
  from sanitized_required [OF assms k this]
  obtain v where "partial ''id'' = Some (JString v) \<and> v \<noteq> []" ..
  then have "partial ''id'' = Some (JString v)" ..
  then show "\<exists>v. partial ''id'' = Some (JString v)" ..
qed

section \<open>The invariant of the reachable stores\<close>

lemma sanitized_create_payload:
  assumes "validateRequest g userCreateSchema body = Inr user"
  shows "dom user \<subseteq> {''firstName'', ''lastName'', ''email'', ''phone''}"
    and "populated user ''firstName''" and "populated user ''lastName''"
    and "user ''email'' = None \<or> populated user ''email''"
    and "user ''phone'' = None \<or> populated user ''phone''"
proof -
  from sanitized_dom [OF assms]
  show "dom user \<subseteq> {''firstName'', ''lastName'', ''email'', ''phone''}"
    by (simp add: userCreateSchema_def userBaseSchema_def Joi_fork_def)
  have f: "(''firstName'', Joi_required Joi_string) \<in> set userCreateSchema"
    and l: "(''lastName'', Joi_required Joi_string) \<in> set userCreateSchema"
    by (simp_all add: userCreateSchema_def userBaseSchema_def Joi_fork_def)
  have p: "presence (Joi_required Joi_string)" by (simp add: Joi_required_def)
  from sanitized_required [OF assms f p] show "populated user ''firstName''"
    by (auto simp: populated_def)
  from sanitized_required [OF assms l p] show "populated user ''lastName''"
    by (auto simp: populated_def)
  show "user ''email'' = None \<or> populated user ''email''"
    using sanitized_string [OF assms, of "''email''"]
    by (cases "user ''email''") (auto simp: populated_def)
  show "user ''phone'' = None \<or> populated user ''phone''"
    using sanitized_string [OF assms, of "''phone''"]
    by (cases "user ''phone''") (auto simp: populated_def)
qed

lemma dom_new_bound:
  "D \<subseteq> {a, b, c, d} \<Longrightarrow> insert g (insert f (insert e D)) \<subseteq> {e, a, b, c, d, f, g}"
  by blast

lemma dom_merge_bound:
  "D \<subseteq> {e, a, b, c, d, f, g} \<Longrightarrow> P \<subseteq> {a, b, c, d} \<Longrightarrow>
     insert g (D \<union> P) \<subseteq> {e, a, b, c, d, f, g}"
  by blast

lemma shapedD:
  assumes "shaped u"
  shows "populated u ''id''" and "populated u ''firstName''" and "populated u ''lastName''"
    and "u ''email'' = None \<or> populated u ''email''"
    and "u ''phone'' = None \<or> populated u ''phone''"
    and "dom u \<subseteq> {''id'', ''firstName'', ''lastName'', ''email'', ''phone'',
                   ''createdAt'', ''updatedAt''}"
  using assms unfolding shaped_def by simp_all

lemma stamped_mono:
  assumes "stamped clock u" and "clock \<le> clock'"
  shows "stamped clock' u"
proof -
  from assms(1) obtain ca ua where t: "u ''createdAt'' = Some (JString ca)"
    "u ''updatedAt'' = Some (JString ua)" "ca \<le> ua" "ua \<le> clock"
    unfolding stamped_def by blast
  from t(4) assms(2) have "ua \<le> clock'" by (rule order_trans)
  with t(1-3) show ?thesis unfolding stamped_def by blast
qed

lemma well_formed_mono:
  assumes "well_formed clock u" and "clock \<le> clock'"
  shows "well_formed clock' u"
  using assms unfolding well_formed_def by (blast intro: stamped_mono)

lemma store_invariant_mono:
  "store_invariant clock users \<Longrightarrow> clock \<le> clock' \<Longrightarrow> store_invariant clock' users"
  unfolding store_invariant_def by (blast intro: well_formed_mono)

lemma well_formed_user_object:
  assumes "ca \<le> ua" and "ua \<le> clock"
  shows "well_formed clock (user_object i fn ln em ph ca ua)"
proof -
  have "shaped (user_object i fn ln em ph ca ua)"
    by (simp add: shaped_def user_object_def populated_def)
  moreover have "stamped clock (user_object i fn ln em ph ca ua)"
    using assms by (simp add: stamped_def user_object_def)
  ultimately show ?thesis unfolding well_formed_def ..
qed

lemma users_initial_ids_distinct: "distinct (map (\<lambda>u. u ''id'') users_initial)"
  by (simp add: users_initial_def user_object_def)

lemma users_initial_well_formed:
  "\<forall>u\<in>set users_initial. well_formed ''2023-09-28T13:42:15Z'' u"
  by (simp add: users_initial_def well_formed_user_object)

lemma store_invariant_start:
  assumes "''2023-09-28T13:42:15Z'' \<le> clock"
  shows "store_invariant clock users_initial"
proof -
  have "store_invariant ''2023-09-28T13:42:15Z'' users_initial"
    unfolding store_invariant_def
    using users_initial_ids_distinct users_initial_well_formed by (rule conjI)
  then show ?thesis using assms by (rule store_invariant_mono)
qed

lemma store_invariant_create:
  assumes inv: "store_invariant clock users"
      and valid: "validateRequest g userCreateSchema body = Inr user"
      and fresh: "\<forall>u\<in>set users. u ''id'' \<noteq> Some (JString uuid)"
      and t1: "clock \<le> now1" and t2: "now1 \<le> now2"
  shows "store_invariant now2 (snd (createNewUser users user uuid now1 now2))"
proof -
  let ?new = "user(''id'' \<mapsto> JString uuid, ''createdAt'' \<mapsto> JString now1,
                   ''updatedAt'' \<mapsto> JString now2)"
  note p = sanitized_create_payload [OF valid]
  from t1 t2 have c: "clock \<le> now2" by (rule order_trans)
  have "dom ?new = insert ''updatedAt'' (insert ''createdAt'' (insert ''id'' (dom user)))"
    by simp
  with p(1) have "dom ?new \<subseteq> {''id'', ''firstName'', ''lastName'', ''email'', ''phone'',
                    ''createdAt'', ''updatedAt''}"
    by (simp only: dom_new_bound)
  moreover have "populated ?new ''id''" "populated ?new ''firstName''"
    "populated ?new ''lastName''"
    "?new ''email'' = None \<or> populated ?new ''email''"
    "?new ''phone'' = None \<or> populated ?new ''phone''"
    using p(2-5) by (simp_all add: populated_def)
  ultimately have "shaped ?new" unfolding shaped_def by (intro conjI)
  moreover have "stamped now2 ?new"
    using t2 by (simp add: stamped_def)
  ultimately have new: "well_formed now2 ?new"
    unfolding well_formed_def ..
  have old: "\<forall>u\<in>set users. well_formed now2 u"
    using inv c unfolding store_invariant_def by (blast intro: well_formed_mono)
  have "Some (JString uuid) \<notin> set (map (\<lambda>u. u ''id'') users)"
    using fresh by auto
  with inv have d: "distinct (map (\<lambda>u. u ''id'') (users @ [?new]))"
    unfolding store_invariant_def by simp
  show ?thesis
    unfolding store_invariant_def createNewUser_def Let_def snd_conv
    using d old new by simp
qed

lemma store_invariant_update:
  assumes inv: "store_invariant clock users"
      and valid: "validateRequest g userUpdateSchema body = Inr user"
      and t: "clock \<le> now"
  shows "store_invariant now (snd (updateUser users id' user now))"
proof (cases "findIndex (\<lambda>u. u ''id'' = id') users")
  case None
  then have "snd (updateUser users id' user now) = users"
    by (simp add: updateUser_def)
  with inv t show ?thesis by (simp add: store_invariant_mono)
next
  case (Some i)
  let ?old = "users ! i"
  let ?r = "(?old ++ user)(''updatedAt'' \<mapsto> JString now)"
  have b: "i < length users" using Some by (rule findIndex_Some_bound)
  then have m: "?old \<in> set users" by simp
  with inv have w: "well_formed clock ?old" unfolding store_invariant_def by blast
  note d = sanitized_update_payload(1) [OF valid]
  have str: "\<exists>v. x = JString v" if "user key = Some x" for key x
    using sanitized_string [OF valid that] by blast
  have keep: "(?old ++ user) key = ?old key" if "user key = None" for key
    using that by (simp add: map_add_def)
  have pop: "populated (?old ++ user) key" if "populated ?old key" for key
  proof (cases "user key")
    case None
    with that keep show ?thesis by (simp add: populated_def)
  next
    case (Some x)
    with str [OF Some] show ?thesis by (auto simp: populated_def map_add_def)
  qed
  have opt: "(?old ++ user) key = None \<or> populated (?old ++ user) key"
    if "?old key = None \<or> populated ?old key" for key
  proof (cases "user key")
    case None
    with that keep show ?thesis by (auto simp: populated_def)
  next
    case (Some x)
    with str [OF Some] show ?thesis by (auto simp: populated_def map_add_def)
  qed
  have nid: "user ''id'' = None" and nca: "user ''createdAt'' = None"
    using sanitized_update_payload(2,3) [OF valid] by simp_all
  from w have sh: "shaped ?old" and st: "stamped clock ?old"
    unfolding well_formed_def by simp_all
  from st obtain ca ua where ts: "?old ''createdAt'' = Some (JString ca)"
    "?old ''updatedAt'' = Some (JString ua)" "ca \<le> ua" "ua \<le> clock"
    unfolding stamped_def by blast
  from ts(3,4) have "ca \<le> clock" by (rule order_trans)
  then have "ca \<le> now" using t by (rule order_trans)
  with ts(1) nca have time: "stamped now ?r"
    by (simp add: stamped_def map_add_def)
  have "dom ?old \<subseteq> {''id'', ''firstName'', ''lastName'', ''email'', ''phone'',
                    ''createdAt'', ''updatedAt''}"
    using sh by (rule shapedD)
  moreover have "dom ?r = insert ''updatedAt'' (dom ?old \<union> dom user)"
    by (simp add: Un_commute)
  ultimately have dom: "dom ?r \<subseteq> {''id'', ''firstName'', ''lastName'', ''email'', ''phone'',
                    ''createdAt'', ''updatedAt''}"
    using d by (simp only: dom_merge_bound)
  have o: "populated ?old ''id''" "populated ?old ''firstName''" "populated ?old ''lastName''"
    "?old ''email'' = None \<or> populated ?old ''email''"
    "?old ''phone'' = None \<or> populated ?old ''phone''"
    using sh by (rule shapedD)+
  have "populated ?r ''id''" "populated ?r ''firstName''" "populated ?r ''lastName''"
    "?r ''email'' = None \<or> populated ?r ''email''"
    "?r ''phone'' = None \<or> populated ?r ''phone''"
    using pop [OF o(1)] pop [OF o(2)] pop [OF o(3)] opt [OF o(4)] opt [OF o(5)]
    by (simp_all add: populated_def)
  with dom have "shaped ?r" unfolding shaped_def by (intro conjI)
  with time have new: "well_formed now ?r"
    unfolding well_formed_def by (intro conjI)
  have upd: "snd (updateUser users id' user now) = users[i := ?r]"
    using Some by (simp add: updateUser_def Let_def)
  have "?r ''id'' = ?old ''id''" using nid by (simp add: map_add_def)
  then have "map (\<lambda>u. u ''id'') (users[i := ?r]) = map (\<lambda>u. u ''id'') users"
    using b by (simp add: map_update list_update_same_conv)
  with inv have dist: "distinct (map (\<lambda>u. u ''id'') (users[i := ?r]))"
    unfolding store_invariant_def by simp
  have "\<forall>u\<in>set (users[i := ?r]). well_formed now u"
  proof
    fix u assume "u \<in> set (users[i := ?r])"
    then have "u = ?r \<or> u \<in> set users"
      using set_update_subset_insert [of users i ?r] by auto
    then show "well_formed now u"
    proof
      assume "u = ?r" with new show ?thesis by simp
    next
      assume "u \<in> set users"
      with inv have "well_formed clock u" unfolding store_invariant_def by blast
      then show ?thesis using t by (rule well_formed_mono)
    qed
  qed
  with dist show ?thesis unfolding store_invariant_def upd by (rule conjI)
qed

lemma distinct_remove_nth:
  assumes "distinct ys"
  shows "distinct (take i ys @ drop (Suc i) ys)"
proof -
  have "set (take i ys) \<inter> set (drop (Suc i) ys) = {}"
    using assms by (rule set_take_disj_set_drop_if_distinct) simp
  with assms show ?thesis by simp
qed

lemma store_invariant_delete:
  assumes inv: "store_invariant clock users"
  shows "store_invariant clock (snd (deleteUser users id'))"
proof (cases "findIndex (\<lambda>u. u ''id'' = id') users")
  case None
  then have "snd (deleteUser users id') = users" by (simp add: deleteUser_def)
  with inv show ?thesis by simp
next
  case (Some i)
  let ?users' = "take i users @ drop (Suc i) users"
  have del: "snd (deleteUser users id') = ?users'"
    using Some by (simp add: deleteUser_def)
  have "map (\<lambda>u. u ''id'') ?users'
          = take i (map (\<lambda>u. u ''id'') users) @ drop (Suc i) (map (\<lambda>u. u ''id'') users)"
    by (simp add: take_map drop_map)
  with inv have dist: "distinct (map (\<lambda>u. u ''id'') ?users')"
    unfolding store_invariant_def by (simp only: distinct_remove_nth)
  have "set ?users' \<subseteq> set users"
    using set_take_subset [of i users] set_drop_subset [of "Suc i" users] by auto
  with inv have "\<forall>u\<in>set ?users'. well_formed clock u"
    unfolding store_invariant_def by blast
  with dist show ?thesis unfolding store_invariant_def del by (rule conjI)
qed

lemma reachable_store_invariant:
  "reachable g clock users \<Longrightarrow> store_invariant clock users"
proof (induction rule: reachable.induct)
  case (start clock)
  then show ?case by (rule store_invariant_start)
next
  case (create clock users body user uuid now1 now2)
  from create.IH create.hyps(2-5) show ?case by (rule store_invariant_create)
next
  case (update clock users body user now id')
  from update.IH update.hyps(2,3) show ?case by (rule store_invariant_update)
next
  case (delete clock users id')
  from delete.IH show ?case by (rule store_invariant_delete)
qed
lemma restrict_map_dom_subset:
  assumes "dom m \<subseteq> S"
  shows "m |` S = m"
proof (rule ext)
  fix x
  show "(m |` S) x = m x"
    using assms by (cases "m x") (auto simp: restrict_map_def)
qed

lemma userCreateSchema_keys:
  "set (map fst userCreateSchema) = {''firstName'', ''lastName'', ''email'', ''phone''}"
  by (simp add: userCreateSchema_def userBaseSchema_def Joi_fork_def)

lemma names_only_valid: "validateRequest g userCreateSchema names_only = Inr names_only"
proof -
  have "dom names_only \<subseteq> {''firstName'', ''lastName'', ''email'', ''phone''}"
    by (simp add: names_only_def)
  then have "dom names_only \<subseteq> set (map fst userCreateSchema)"
    by (simp only: userCreateSchema_keys)
  then have "names_only |` set (map fst userCreateSchema) = names_only"
    by (rule restrict_map_dom_subset)
  then show ?thesis
    by (simp add: validateRequest_Inr_iff validate_string_Nil_iff userCreateSchema_def
        userBaseSchema_def Joi_fork_def names_only_def Joi_required_def Joi_string_def
        emailSchema_def phoneSchema_def Joi_messages_def Joi_email_def Joi_pattern_def)
qed

lemma mockUUID_fresh: "\<forall>u\<in>set users_initial. u ''id'' \<noteq> Some (JString mockUUID)"
  by (simp add: users_initial_def user_object_def mockUUID_def)

lemma reachable_after_names_only:
  "reachable g ''2024-01-15T10:30:00.000Z''
     (snd (createNewUser users_initial names_only mockUUID
             ''2024-01-15T10:30:00.000Z'' ''2024-01-15T10:30:00.000Z''))"
proof -
  have "reachable g ''2024-01-15T10:30:00.000Z'' users_initial"
    by (rule reachable.start) simp
  then show ?thesis
    using names_only_valid mockUUID_fresh by (rule reachable.create) simp_all
qed

text \<open>
  Claim C6 does not hold as stated. A body with the two names only passes
  \<open>userCreateSchema\<close>, which requires nothing else, so one \<open>POST /user\<close> on the
  initial store leaves a stored record without \<open>email\<close> and without \<open>phone\<close>.
\<close>

theorem reachable_record_without_email:
  "reachable sample_grammar ''2024-01-15T10:30:00.000Z''
     (snd (createNewUser users_initial names_only mockUUID
             ''2024-01-15T10:30:00.000Z'' ''2024-01-15T10:30:00.000Z''))
   \<and> last (snd (createNewUser users_initial names_only mockUUID
             ''2024-01-15T10:30:00.000Z'' ''2024-01-15T10:30:00.000Z'')) ''email'' = None
   \<and> last (snd (createNewUser users_initial names_only mockUUID
             ''2024-01-15T10:30:00.000Z'' ''2024-01-15T10:30:00.000Z'')) ''phone'' = None"
proof -
  have "last (snd (createNewUser users_initial names_only mockUUID
             ''2024-01-15T10:30:00.000Z'' ''2024-01-15T10:30:00.000Z'')) ''email'' = None"
    by (simp add: createNewUser_def Let_def names_only_def)
  moreover
  have "last (snd (createNewUser users_initial names_only mockUUID
             ''2024-01-15T10:30:00.000Z'' ''2024-01-15T10:30:00.000Z'')) ''phone'' = None"
    by (simp add: createNewUser_def Let_def names_only_def)
  ultimately show ?thesis
    using reachable_after_names_only [of sample_grammar] by (intro conjI)
qed

text \<open>
  Claim C6, amended. In every store reachable from the initial collection by creating,
  updating and deleting through the validated routes, with fresh generated identifiers
  and a clock that never runs backwards, no two records share an identifier, and every
  record has \<open>id\<close>, \<open>firstName\<close>, \<open>lastName\<close>, \<open>createdAt\<close> and
  \<open>updatedAt\<close> populated, has \<open>email\<close> and \<open>phone\<close> populated or absent (the
  create schema does not require them), has no field beyond the seven, and has a
  creation time that is not after its update time.
\<close>

theorem reachable_invariant:
  assumes "reachable g clock users"
  shows "distinct (map (\<lambda>u. u ''id'') users)
    \<and> (\<forall>u\<in>set users.
          populated u ''id'' \<and> populated u ''firstName'' \<and> populated u ''lastName''
          \<and> populated u ''createdAt'' \<and> populated u ''updatedAt''
          \<and> (u ''email'' = None \<or> populated u ''email'')
          \<and> (u ''phone'' = None \<or> populated u ''phone'')
          \<and> dom u \<subseteq> {''id'', ''firstName'', ''lastName'', ''email'', ''phone'',
                        ''createdAt'', ''updatedAt''}
          \<and> (\<exists>createdAt updatedAt.
                u ''createdAt'' = Some (JString createdAt)
                \<and> u ''updatedAt'' = Some (JString updatedAt)
                \<and> createdAt \<le> updatedAt \<and> updatedAt \<le> clock))"
proof -
  from assms have inv: "store_invariant clock users" by (rule reachable_store_invariant)
  then have d: "distinct (map (\<lambda>u. u ''id'') users)"
    unfolding store_invariant_def ..
  have "\<forall>u\<in>set users.
          populated u ''id'' \<and> populated u ''firstName'' \<and> populated u ''lastName''
          \<and> populated u ''createdAt'' \<and> populated u ''updatedAt''
          \<and> (u ''email'' = None \<or> populated u ''email'')
          \<and> (u ''phone'' = None \<or> populated u ''phone'')
          \<and> dom u \<subseteq> {''id'', ''firstName'', ''lastName'', ''email'', ''phone'',
                        ''createdAt'', ''updatedAt''}
          \<and> (\<exists>createdAt updatedAt.
                u ''createdAt'' = Some (JString createdAt)
                \<and> u ''updatedAt'' = Some (JString updatedAt)
                \<and> createdAt \<le> updatedAt \<and> updatedAt \<le> clock)"
  proof
    fix u assume "u \<in> set users"
    with inv have "well_formed clock u" unfolding store_invariant_def by blast
    then have sh: "shaped u" and st: "stamped clock u"
      unfolding well_formed_def by simp_all
    from st have t: "\<exists>createdAt updatedAt.
                u ''createdAt'' = Some (JString createdAt)
                \<and> u ''updatedAt'' = Some (JString updatedAt)
                \<and> createdAt \<le> updatedAt \<and> updatedAt \<le> clock"
      unfolding stamped_def .
    then have c: "populated u ''createdAt''" and m: "populated u ''updatedAt''"
      unfolding populated_def by blast+
    from shapedD [OF sh] c m t
    show "populated u ''id'' \<and> populated u ''firstName'' \<and> populated u ''lastName''
          \<and> populated u ''createdAt'' \<and> populated u ''updatedAt''
          \<and> (u ''email'' = None \<or> populated u ''email'')
          \<and> (u ''phone'' = None \<or> populated u ''phone'')
          \<and> dom u \<subseteq> {''id'', ''firstName'', ''lastName'', ''email'', ''phone'',
                        ''createdAt'', ''updatedAt''}
          \<and> (\<exists>createdAt updatedAt.
                u ''createdAt'' = Some (JString createdAt)
                \<and> u ''updatedAt'' = Some (JString updatedAt)
                \<and> createdAt \<le> updatedAt \<and> updatedAt \<le> clock)"
      by (intro conjI)
  qed
  with d show ?thesis ..
qed

theorem reachable_invariant_witness:
  "reachable sample_grammar ''2024-01-15T10:30:00.000Z''
     (snd (createNewUser users_initial names_only mockUUID
             ''2024-01-15T10:30:00.000Z'' ''2024-01-15T10:30:00.000Z''))
   \<and> distinct (map (\<lambda>u. u ''id'')
        (snd (createNewUser users_initial names_only mockUUID
                ''2024-01-15T10:30:00.000Z'' ''2024-01-15T10:30:00.000Z'')))"
proof -
  have r: "reachable sample_grammar ''2024-01-15T10:30:00.000Z''
     (snd (createNewUser users_initial names_only mockUUID
             ''2024-01-15T10:30:00.000Z'' ''2024-01-15T10:30:00.000Z''))"
    by (rule reachable_after_names_only)
  show ?thesis
    by (rule conjI [OF r reachable_invariant [OF r, THEN conjunct1]])
qed

section \<open>Create behind its validation\<close>

lemma phone_alice: "regex_test phone_regex ''+1-555-111-2222''"
  by code_simp

lemma alice_valid: "validateRequest sample_grammar userCreateSchema alice = Inr alice"
proof -
  have "dom alice \<subseteq> {''firstName'', ''lastName'', ''email'', ''phone''}"
    by (simp add: alice_def)
  then have "dom alice \<subseteq> set (map fst userCreateSchema)"
    by (simp only: userCreateSchema_keys)
  then have "alice |` set (map fst userCreateSchema) = alice"
    by (rule restrict_map_dom_subset)
  then show ?thesis
    using phone_alice
    by (simp add: validateRequest_Inr_iff validate_string_Nil_iff userCreateSchema_def
        userBaseSchema_def Joi_fork_def alice_def Joi_required_def Joi_string_def
        emailSchema_def phoneSchema_def Joi_messages_def Joi_email_def Joi_pattern_def
        sample_grammar_def)
qed

text \<open>
  What \<open>createNewUser\<close> does on the sanitized value of a body that passed
  \<open>userCreateSchema\<close>: the result has no field beyond the seven of \<open>User\<close>, whatever
  unknown fields the body had; its \<open>id\<close> is the generated identifier, which is fresh
  when the generator's is; and its two time stamps are the two readings of the clock, so
  they are equal exactly when the two readings are.
\<close>

lemma createNewUser_on_valid_input:
  assumes valid: "validateRequest g userCreateSchema body = Inr user"
  shows "dom (fst (createNewUser users user uuid now1 now2))
           \<subseteq> {''id'', ''firstName'', ''lastName'', ''email'', ''phone'',
               ''createdAt'', ''updatedAt''}"
    and "fst (createNewUser users user uuid now1 now2) ''id'' = Some (JString uuid)"
    and "(fst (createNewUser users user uuid now1 now2) ''createdAt''
            = fst (createNewUser users user uuid now1 now2) ''updatedAt'') = (now1 = now2)"
proof -
  let ?new = "user(''id'' \<mapsto> JString uuid, ''createdAt'' \<mapsto> JString now1,
                   ''updatedAt'' \<mapsto> JString now2)"
  have n: "fst (createNewUser users user uuid now1 now2) = ?new"
    by (simp add: createNewUser_def Let_def)
  have "dom ?new = insert ''updatedAt'' (insert ''createdAt'' (insert ''id'' (dom user)))"
    by simp
  with sanitized_create_payload(1) [OF valid]
  show "dom (fst (createNewUser users user uuid now1 now2))
           \<subseteq> {''id'', ''firstName'', ''lastName'', ''email'', ''phone'',
               ''createdAt'', ''updatedAt''}"
    unfolding n by (simp only: dom_new_bound)
  show "fst (createNewUser users user uuid now1 now2) ''id'' = Some (JString uuid)"
    unfolding n by simp
  show "(fst (createNewUser users user uuid now1 now2) ''createdAt''
            = fst (createNewUser users user uuid now1 now2) ''updatedAt'') = (now1 = now2)"
    unfolding n by simp
qed

text \<open>
  Claim C5. The claim asks that the record created from a valid input has equal
  \<open>createdAt\<close> and \<open>updatedAt\<close>. \<open>createNewUser\<close> evaluates
  \<open>new Date().toISOString()\<close> once for each field, so when the clock advances between
  the two evaluations the two fields differ: for the valid body of Alice Johnson, with
  the readings \<open>2024-01-15T10:30:00.000Z\<close> and \<open>2024-01-15T10:30:00.001Z\<close>, the
  record is created one millisecond before it is updated.
\<close>

theorem createNewUser_reads_clock_twice:
  "validateRequest sample_grammar userCreateSchema alice = Inr alice
   \<and> fst (createNewUser users_initial alice mockUUID
            ''2024-01-15T10:30:00.000Z'' ''2024-01-15T10:30:00.001Z'') ''createdAt''
       = Some (JString ''2024-01-15T10:30:00.000Z'')
   \<and> fst (createNewUser users_initial alice mockUUID
            ''2024-01-15T10:30:00.000Z'' ''2024-01-15T10:30:00.001Z'') ''updatedAt''
       = Some (JString ''2024-01-15T10:30:00.001Z'')
   \<and> fst (createNewUser users_initial alice mockUUID
            ''2024-01-15T10:30:00.000Z'' ''2024-01-15T10:30:00.001Z'') ''createdAt''
       \<noteq> fst (createNewUser users_initial alice mockUUID
            ''2024-01-15T10:30:00.000Z'' ''2024-01-15T10:30:00.001Z'') ''updatedAt''"
proof -
  have "fst (createNewUser users_initial alice mockUUID
            ''2024-01-15T10:30:00.000Z'' ''2024-01-15T10:30:00.001Z'') ''createdAt''
       = Some (JString ''2024-01-15T10:30:00.000Z'')"
    by (simp add: createNewUser_def Let_def)
  moreover have "fst (createNewUser users_initial alice mockUUID
            ''2024-01-15T10:30:00.000Z'' ''2024-01-15T10:30:00.001Z'') ''updatedAt''
       = Some (JString ''2024-01-15T10:30:00.001Z'')"
    by (simp add: createNewUser_def Let_def)
  moreover have "fst (createNewUser users_initial alice mockUUID
            ''2024-01-15T10:30:00.000Z'' ''2024-01-15T10:30:00.001Z'') ''createdAt''
       \<noteq> fst (createNewUser users_initial alice mockUUID
            ''2024-01-15T10:30:00.000Z'' ''2024-01-15T10:30:00.001Z'') ''updatedAt''"
    by (simp add: createNewUser_def Let_def)
  ultimately show ?thesis using alice_valid by (intro conjI)
qed
end
